theory Spec2Isabelle
  imports Main
begin

section \<open>JavaScript values and control flow\<close>

text \<open>
  The front end handles values that come out of \<^verbatim>\<open>JSON.parse\<close>: \<^verbatim>\<open>undefined\<close> (the
  value of a missing property), \<^verbatim>\<open>null\<close>, booleans, numbers, strings and objects.
  Numbers are the integers the dashboard exchanges (ids, milliseconds, status codes).
  An object carries its reference, because \<^verbatim>\<open>===\<close> compares objects by reference, and
  its own properties in insertion order.
\<close>

datatype jsval =
    JUndefined
  | JNull
  | JBool bool
  | JNum int
  | JStr string
  | JObj nat "(string \<times> jsval) list"

text \<open>
  A statement either completes normally or throws a value; both leave a state behind.
\<close>

datatype 's completion = Returned 's | Threw jsval 's

text \<open>\<^verbatim>\<open>try { body } catch (error) { handler }\<close>\<close>

definition try_catch ::
  "('s \<Rightarrow> 's completion) \<Rightarrow> (jsval \<Rightarrow> 's \<Rightarrow> 's completion) \<Rightarrow> 's \<Rightarrow> 's completion" where
  "try_catch body handler s =
     (case body s of Returned s' \<Rightarrow> Returned s' | Threw e s' \<Rightarrow> handler e s')"

text \<open>
  \<^verbatim>\<open>Array.prototype.forEach\<close> over the elements the array holds when the call starts:
  elements pushed during the iteration are not visited, and an exception thrown by the
  function ends the iteration and leaves \<^verbatim>\<open>forEach\<close>.
\<close>

fun forEach :: "('a \<Rightarrow> 's \<Rightarrow> 's completion) \<Rightarrow> 'a list \<Rightarrow> 's \<Rightarrow> 's completion" where
  "forEach f [] s = Returned s"
| "forEach f (x # xs) s =
     (case f x s of Threw e s' \<Rightarrow> Threw e s' | Returned s' \<Rightarrow> forEach f xs s')"

text \<open>Truthiness, as \<^verbatim>\<open>!\<close>, \<^verbatim>\<open>||\<close> and \<^verbatim>\<open>? :\<close> test it.\<close>

fun truthy :: "jsval \<Rightarrow> bool" where
  "truthy JUndefined = False"
| "truthy JNull = False"
| "truthy (JBool b) = b"
| "truthy (JNum n) = (n \<noteq> 0)"
| "truthy (JStr s) = (s \<noteq> [])"
| "truthy (JObj r ps) = True"

text \<open>\<^verbatim>\<open>a || b\<close>\<close>

definition js_or :: "jsval \<Rightarrow> jsval \<Rightarrow> jsval" where
  "js_or a b = (if truthy a then a else b)"

text \<open>\<^verbatim>\<open>a === b\<close>: by value on primitives, by reference on objects.\<close>

fun strict_eq :: "jsval \<Rightarrow> jsval \<Rightarrow> bool" where
  "strict_eq JUndefined JUndefined = True"
| "strict_eq JNull JNull = True"
| "strict_eq (JBool a) (JBool b) = (a = b)"
| "strict_eq (JNum a) (JNum b) = (a = b)"
| "strict_eq (JStr a) (JStr b) = (a = b)"
| "strict_eq (JObj r ps) (JObj r' ps') = (r = r')"
| "strict_eq a b = False"

text \<open>
  An object as the list of its own properties. \<^verbatim>\<open>o.k\<close> on an object is the property's
  value, or \<^verbatim>\<open>undefined\<close> when the object has no such property.
\<close>

type_synonym obj = "(string \<times> jsval) list"

definition field :: "obj \<Rightarrow> string \<Rightarrow> jsval" where
  "field ps k = (case map_of ps k of None \<Rightarrow> JUndefined | Some v \<Rightarrow> v)"

text \<open>
  \<^verbatim>\<open>v.k\<close> on any value: reading a property of \<^verbatim>\<open>undefined\<close> or \<^verbatim>\<open>null\<close> throws a
  TypeError; a boolean, a number or a string has none of the properties read here
  (\<^verbatim>\<open>type\<close>, \<^verbatim>\<open>data\<close>, \<^verbatim>\<open>url_id\<close>, \<^verbatim>\<open>status\<close>, ...), so the read gives \<^verbatim>\<open>undefined\<close>.
\<close>

datatype js_error = TypeError

fun get_prop :: "jsval \<Rightarrow> string \<Rightarrow> js_error + jsval" where
  "get_prop JUndefined k = Inl TypeError"
| "get_prop JNull k = Inl TypeError"
| "get_prop (JObj r ps) k = Inr (field ps k)"
| "get_prop v k = Inr JUndefined"

text \<open>Sequencing of evaluations that may throw.\<close>

definition and_then :: "'e + 'a \<Rightarrow> ('a \<Rightarrow> 'e + 'b) \<Rightarrow> 'e + 'b" where
  "and_then r f = (case r of Inl e \<Rightarrow> Inl e | Inr v \<Rightarrow> f v)"

text \<open>
  \<^verbatim>\<open>Array.prototype.findIndex\<close>: the index of the first element that satisfies the
  predicate, \<open>-1\<close> when there is none.
\<close>

fun findIndex :: "('a \<Rightarrow> bool) \<Rightarrow> 'a list \<Rightarrow> int" where
  "findIndex p [] = - 1"
| "findIndex p (x # xs) =
     (if p x then 0 else (let i = findIndex p xs in if i \<ge> 0 then i + 1 else - 1))"

section \<open>The WebSocket service (services/websocket.js)\<close>

text \<open>
  A listener is a function object; the service compares listeners by reference
  (\<^verbatim>\<open>listener !== callback\<close>), so a listener is modelled by its reference.
\<close>

type_synonym callback = nat

text \<open>
  The state a listener can reach: the service's fields, the console, and the state of the
  application that registered the listener.
  \<^verbatim>\<open>
  constructor() {
    this.ws = null;
    this.listeners = [];
    this.reconnectInterval = 5000;
    this.reconnectTimer = null;
  }
  \<close>
\<close>

record 'u world =
  ws :: "nat option"
  listeners :: "callback list"
  reconnectInterval :: nat
  reconnectTimer :: "nat option"
  console :: "jsval list list"
  app :: 'u

definition constructor :: "'u \<Rightarrow> 'u world" where
  "constructor u =
     \<lparr>ws = None, listeners = [], reconnectInterval = 5000, reconnectTimer = None,
      console = [], app = u\<rparr>"

text \<open>
  What each function object does when it is called with a message: it may change the
  world (subscribe or unsubscribe listeners included) and it returns or throws.
\<close>

type_synonym 'u behaviour = "callback \<Rightarrow> jsval \<Rightarrow> 'u world \<Rightarrow> 'u world completion"

text \<open>
  A run pairs the world with the record of the calls made so far (which listener, with
  which argument). Listeners never see the record.
\<close>

type_synonym 'u run = "(callback \<times> jsval) list \<times> 'u world"

definition call :: "'u behaviour \<Rightarrow> callback \<Rightarrow> jsval \<Rightarrow> 'u run \<Rightarrow> 'u run completion" where
  "call beh cb data r =
     (case beh cb data (snd r) of
        Returned w' \<Rightarrow> Returned (fst r @ [(cb, data)], w')
      | Threw e w' \<Rightarrow> Threw e (fst r @ [(cb, data)], w'))"

definition console_error :: "jsval list \<Rightarrow> 'u run \<Rightarrow> 'u run completion" where
  "console_error args r = Returned (fst r, (snd r)\<lparr>console := console (snd r) @ [args]\<rparr>)"

text \<open>
  \<^verbatim>\<open>
  subscribe(callback) {
    this.listeners.push(callback);
    return () => {
      this.listeners = this.listeners.filter(listener => listener !== callback);
    };
  }
  \<close>
  \<open>unsubscribe callback\<close> is the arrow function that \<open>subscribe\<close> returns.
\<close>

definition unsubscribe :: "callback \<Rightarrow> 'u world \<Rightarrow> 'u world" where
  "unsubscribe callback w =
     w\<lparr>listeners := filter (\<lambda>listener. listener \<noteq> callback) (listeners w)\<rparr>"

definition subscribe :: "callback \<Rightarrow> 'u world \<Rightarrow> ('u world \<Rightarrow> 'u world) \<times> 'u world" where
  "subscribe callback w = (unsubscribe callback, w\<lparr>listeners := listeners w @ [callback]\<rparr>)"

text \<open>
  \<^verbatim>\<open>
  notifyListeners(data) {
    this.listeners.forEach(callback => {
      try {
        callback(data);
      } catch (error) {
        console.error('Error in WebSocket listener:', error);
      }
    });
  }
  \<close>
  \<^verbatim>\<open>this.listeners\<close> is read once, when \<^verbatim>\<open>forEach\<close> is called.
\<close>

definition notifyListeners :: "'u behaviour \<Rightarrow> jsval \<Rightarrow> 'u run \<Rightarrow> 'u run completion" where
  "notifyListeners beh data r =
     forEach
       (\<lambda>callback.
          try_catch (call beh callback data)
            (\<lambda>error. console_error [JStr ''Error in WebSocket listener:'', error]))
       (listeners (snd r)) r"

text \<open>Subscribing the same function object \<open>n\<close> times.\<close>

fun subscribe_times :: "nat \<Rightarrow> callback \<Rightarrow> 'u world \<Rightarrow> 'u world" where
  "subscribe_times 0 callback w = w"
| "subscribe_times (Suc n) callback w = subscribe_times n callback (snd (subscribe callback w))"

text \<open>
  A client of the service calls \<open>subscribe\<close>, a returned unsubscribe function or (through
  \<^verbatim>\<open>ws.onmessage\<close>) \<open>notifyListeners\<close>, in any order.
\<close>

datatype action = Subscribe callback | Unsubscribe callback | Notify jsval

fun state_of :: "'s completion \<Rightarrow> 's" where
  "state_of (Returned s) = s"
| "state_of (Threw e s) = s"

fun perform :: "'u behaviour \<Rightarrow> action \<Rightarrow> 'u run \<Rightarrow> 'u run" where
  "perform beh (Subscribe cb) r = (fst r, snd (subscribe cb (snd r)))"
| "perform beh (Unsubscribe cb) r = (fst r, unsubscribe cb (snd r))"
| "perform beh (Notify data) r = state_of (notifyListeners beh data r)"

fun perform_all :: "'u behaviour \<Rightarrow> action list \<Rightarrow> 'u run \<Rightarrow> 'u run" where
  "perform_all beh [] r = r"
| "perform_all beh (a # as) r = perform_all beh as (perform beh a r)"

section \<open>The health-status cache (App.js)\<close>

text \<open>
  \<^verbatim>\<open>
  const [healthcheckCache, setHealthcheckCache] = useState(() => { ...
    return { urls: [], servers: [], healthStatuses: [], lastUpdated: null, isLoading: false };
  });
  \<close>
  The elements of the three arrays are objects (rows of the REST responses, or the
  entries the message handler builds); \<^verbatim>\<open>lastUpdated\<close> is a time in milliseconds.
\<close>

record healthcheckCache =
  urls :: "obj list"
  servers :: "obj list"
  healthStatuses :: "obj list"
  lastUpdated :: "nat option"
  isLoading :: bool

definition initial_cache :: healthcheckCache where
  "initial_cache =
     \<lparr>urls = [], servers = [], healthStatuses = [], lastUpdated = None, isLoading = False\<rparr>"

text \<open>
  The object literal that both branches of the handler build from the message:
  \<^verbatim>\<open>
  { url_id: message.data.url_id, status: message.data.status,
    response_time: message.data.response_time, status_code: message.data.status_code,
    checked_at: message.data.checked_at, error_message: message.data.error_message }
  \<close>
\<close>

definition read_data :: "jsval \<Rightarrow> string \<Rightarrow> js_error + jsval" where
  "read_data message k = and_then (get_prop message ''data'') (\<lambda>data. get_prop data k)"

definition health_entry :: "jsval \<Rightarrow> js_error + obj" where
  "health_entry message =
     and_then (read_data message ''url_id'') (\<lambda>url_id.
     and_then (read_data message ''status'') (\<lambda>status.
     and_then (read_data message ''response_time'') (\<lambda>response_time.
     and_then (read_data message ''status_code'') (\<lambda>status_code.
     and_then (read_data message ''checked_at'') (\<lambda>checked_at.
     and_then (read_data message ''error_message'') (\<lambda>error_message.
       Inr [(''url_id'', url_id), (''status'', status), (''response_time'', response_time),
            (''status_code'', status_code), (''checked_at'', checked_at),
            (''error_message'', error_message)]))))))"

text \<open>
  \<^verbatim>\<open>
  const handleWebSocketMessage = (message) => {
    if (message.type === 'health_update') {
      setHealthcheckCache(prev => {
        const healthStatuses = [...prev.healthStatuses];
        const index = healthStatuses.findIndex(h => h.url_id === message.data.url_id);
        if (index >= 0) {
          healthStatuses[index] = { url_id: message.data.url_id, ... };
        } else {
          healthStatuses.push({ url_id: message.data.url_id, ... });
        }
        return { ...prev, healthStatuses, lastUpdated: new Date() };
      });
    }
  };
  \<close>
  \<open>update_health\<close> is the function handed to \<^verbatim>\<open>setHealthcheckCache\<close>, applied to the cache
  \<open>prev\<close>; \<open>now\<close> is what \<^verbatim>\<open>new Date()\<close> reads. Both branches read \<^verbatim>\<open>message.data.url_id\<close>
  (and the predicate reads nothing else of the message), so the update throws exactly
  when that read throws.
\<close>

definition update_health :: "nat \<Rightarrow> jsval \<Rightarrow> healthcheckCache \<Rightarrow> js_error + healthcheckCache" where
  "update_health now message prev =
     and_then (read_data message ''url_id'') (\<lambda>url_id.
     and_then (health_entry message) (\<lambda>entry.
       let hs = healthStatuses prev;
           index = findIndex (\<lambda>h. strict_eq (field h ''url_id'') url_id) hs
       in Inr (prev\<lparr>healthStatuses :=
                      (if index \<ge> 0 then hs[nat index := entry] else hs @ [entry]),
                    lastUpdated := Some now\<rparr>)))"

definition handleWebSocketMessage ::
  "nat \<Rightarrow> jsval \<Rightarrow> healthcheckCache \<Rightarrow> js_error + healthcheckCache" where
  "handleWebSocketMessage now message prev =
     and_then (get_prop message ''type'') (\<lambda>type.
       if strict_eq type (JStr ''health_update'') then update_health now message prev
       else Inr prev)"

text \<open>At most one entry of the list for each \<^verbatim>\<open>url_id\<close> (compared as the handler does).\<close>

fun one_per_url_id :: "obj list \<Rightarrow> bool" where
  "one_per_url_id [] = True"
| "one_per_url_id (h # hs) =
     (list_all (\<lambda>g. \<not> strict_eq (field g ''url_id'') (field h ''url_id'')) hs
      \<and> one_per_url_id hs)"

section \<open>The URL table (components/URLTable.js)\<close>

text \<open>
  \<^verbatim>\<open>
  const getHealthStatus = (urlId) => {
    const health = healthStatuses.find(h => h.url_id === urlId);
    return health?.status || 'offline';
  };
  \<close>
  \<^verbatim>\<open>find\<close> gives the first element that satisfies the predicate, or \<^verbatim>\<open>undefined\<close>;
  \<^verbatim>\<open>health?.status\<close> is then \<^verbatim>\<open>undefined\<close> too. \<open>statuses\<close> is the component's property
  \<^verbatim>\<open>healthStatuses\<close>, which App.js sets to \<^verbatim>\<open>healthcheckCache.healthStatuses\<close>.
\<close>

definition getHealthStatus :: "obj list \<Rightarrow> jsval \<Rightarrow> jsval" where
  "getHealthStatus statuses urlId =
     (let health = find (\<lambda>h. strict_eq (field h ''url_id'') urlId) statuses
      in js_or (case health of None \<Rightarrow> JUndefined | Some h \<Rightarrow> field h ''status'')
               (JStr ''offline''))"

text \<open>
  The component's state \<^verbatim>\<open>toggleStates\<close> is an object keyed by url id;
  \<^verbatim>\<open>toggleStates[id]\<close> is \<^verbatim>\<open>undefined\<close> for an id it has no key for. The rest of what the
  handler touches: the requests sent, the console and the alerts shown.
\<close>

type_synonym 'k toggles = "'k \<rightharpoonup> jsval"

definition toggle_of :: "'k toggles \<Rightarrow> 'k \<Rightarrow> jsval" where
  "toggle_of ts k = (case ts k of None \<Rightarrow> JUndefined | Some v \<Rightarrow> v)"

record 'k table =
  toggleStates :: "'k toggles"
  patches :: "('k \<times> string) list"
  refreshes :: nat
  logs :: "string list"
  alerts :: "string list"

definition setToggleStates :: "('k toggles \<Rightarrow> 'k toggles) \<Rightarrow> 'k table \<Rightarrow> 'k table" where
  "setToggleStates f s = s\<lparr>toggleStates := f (toggleStates s)\<rparr>"

text \<open>
  \<^verbatim>\<open>
  const handleToggleHealthCheck = async (urlId, currentStatus) => {
    setToggleStates(prev => ({ ...prev, [urlId]: !currentStatus }));
    try {
      const newStatus = !currentStatus ? 'YES' : 'NO';
      await api.patch(`/api/urls/${urlId}/health-check`, { status: newStatus });
      console.log('Toggle successful');
      if (onRefresh) { await onRefresh(); }
    } catch (error) {
      console.error('Error toggling health check:', error);
      setToggleStates(prev => ({ ...prev, [urlId]: currentStatus }));
      alert('Failed to toggle health check');
    }
  };
  \<close>
  \<open>patch\<close> says how the server answers a PATCH (\<open>None\<close>: the promise resolves, \<open>Some e\<close>:
  it rejects with \<open>e\<close>); \<open>onRefresh\<close> is the optional property of the component, with the outcome of calling it.
\<close>

definition optimistic :: "'k \<Rightarrow> jsval \<Rightarrow> 'k toggles \<Rightarrow> 'k toggles" where
  "optimistic urlId currentStatus prev = prev(urlId \<mapsto> JBool (\<not> truthy currentStatus))"

definition revert :: "'k \<Rightarrow> jsval \<Rightarrow> 'k toggles \<Rightarrow> 'k toggles" where
  "revert urlId currentStatus prev = prev(urlId \<mapsto> currentStatus)"

definition toggle_request ::
  "('k \<Rightarrow> string \<Rightarrow> jsval option) \<Rightarrow> jsval option option \<Rightarrow> 'k \<Rightarrow> jsval
     \<Rightarrow> 'k table \<Rightarrow> 'k table completion" where
  "toggle_request patch onRefresh urlId currentStatus s =
     (let newStatus = (if \<not> truthy currentStatus then ''YES'' else ''NO'');
          s1 = s\<lparr>patches := patches s @ [(urlId, newStatus)]\<rparr>
      in case patch urlId newStatus of
           Some error \<Rightarrow> Threw error s1
         | None \<Rightarrow>
            (let s2 = s1\<lparr>logs := logs s1 @ [''Toggle successful'']\<rparr>
             in case onRefresh of
                  None \<Rightarrow> Returned s2
                | Some None \<Rightarrow> Returned (s2\<lparr>refreshes := refreshes s2 + 1\<rparr>)
                | Some (Some error) \<Rightarrow> Threw error (s2\<lparr>refreshes := refreshes s2 + 1\<rparr>)))"

definition toggle_failed :: "'k \<Rightarrow> jsval \<Rightarrow> jsval \<Rightarrow> 'k table \<Rightarrow> 'k table completion" where
  "toggle_failed urlId currentStatus error s =
     (let s1 = s\<lparr>logs := logs s @ [''Error toggling health check:'']\<rparr>;
          s2 = setToggleStates (revert urlId currentStatus) s1
      in Returned (s2\<lparr>alerts := alerts s2 @ [''Failed to toggle health check'']\<rparr>))"

definition handleToggleHealthCheck ::
  "('k \<Rightarrow> string \<Rightarrow> jsval option) \<Rightarrow> jsval option option \<Rightarrow> 'k \<Rightarrow> jsval
     \<Rightarrow> 'k table \<Rightarrow> 'k table completion" where
  "handleToggleHealthCheck patch onRefresh urlId currentStatus s =
     try_catch (toggle_request patch onRefresh urlId currentStatus)
       (toggle_failed urlId currentStatus)
       (setToggleStates (optimistic urlId currentStatus) s)"

text \<open>
  The only caller, the checkbox of a row:
  \<^verbatim>\<open>onChange={() => handleToggleHealthCheck(url.id, toggleStates[url.id])}\<close>
\<close>

definition onChange ::
  "('k \<Rightarrow> string \<Rightarrow> jsval option) \<Rightarrow> jsval option option \<Rightarrow> 'k
     \<Rightarrow> 'k table \<Rightarrow> 'k table completion" where
  "onChange patch onRefresh urlId s =
     handleToggleHealthCheck patch onRefresh urlId (toggle_of (toggleStates s) urlId) s"

section \<open>The health timeline (components/HealthTimeline.js)\<close>

text \<open>
  What the component renders, from its state \<^verbatim>\<open>loading\<close> and \<^verbatim>\<open>history\<close> (the rows that
  \<^verbatim>\<open>getHealthHistory(urlId, 10)\<close> returned):
  \<^verbatim>\<open>
  if (loading) { return <span ...>Loading...</span>; }
  if (history.length === 0) { return <span ...>No data</span>; }
  const onlineCount = history.filter(h => h.status === 'online').length;
  const totalCount = history.length;
  const uptimePercentage = totalCount > 0 ? Math.round((onlineCount / totalCount) * 100) : 0;
  return ( ... {history.slice(0, 10).reverse().map((check, index) => ( <span ... /> ))}
           ... {uptimePercentage}% uptime ({onlineCount}/{totalCount}) ... );
  \<close>
  \<open>percent n d\<close> stands for \<^verbatim>\<open>Math.round((n / d) * 100)\<close>, a computation on IEEE doubles
  that the model does not evaluate. A dot shows a row's status and time.
\<close>

datatype timeline =
    Loading
  | NoData
  | Timeline "(jsval \<times> jsval) list" int nat nat

definition HealthTimeline :: "(nat \<Rightarrow> nat \<Rightarrow> int) \<Rightarrow> bool \<Rightarrow> obj list \<Rightarrow> timeline" where
  "HealthTimeline percent loading history =
     (if loading then Loading
      else if length history = 0 then NoData
      else
        let onlineCount = length (filter (\<lambda>h. strict_eq (field h ''status'') (JStr ''online'')) history);
            totalCount = length history;
            uptimePercentage = (if totalCount > 0 then percent onlineCount totalCount else 0)
        in Timeline
             (map (\<lambda>check. (field check ''status'', field check ''checked_at''))
                (rev (take 10 history)))
             uptimePercentage onlineCount totalCount)"

section \<open>The scheduler (back end)\<close>

text \<open>
  Modelled from the spec: the health-check scheduler and the Result Store. They run in
  the back end (\<^verbatim>\<open>backend/\<close>, Python, with APScheduler), whose code is not part of the
  front-end sources; every definition of this section follows sections 3, 4.2, 4.4 and 7
  of the specification instead.

  A MonitoredTarget has an opaque id, an address, a check interval and an enabled flag.
\<close>

record MonitoredTarget =
  ident :: nat
  address :: string
  check_interval :: nat
  enabled :: bool

text \<open>
  Modelled from the spec: the CheckResult of the back end, an immutable fact: target id,
  timestamp, outcome (\<^verbatim>\<open>online\<close> or \<^verbatim>\<open>offline\<close>), and latency, response code and error
  detail when present. The field names are those of the persistence schema
  \<^verbatim>\<open>(target_id, checked_at, status, response_time, status_code, error_message)\<close>.
\<close>

datatype outcome = Online | Offline

record CheckResult =
  target_id :: nat
  checked_at :: nat
  status :: outcome
  response_time :: "nat option"
  status_code :: "nat option"
  error_message :: "string option"

text \<open>
  Modelled from the spec: the state of the scheduling core. The wall clock; the probes
  dispatched and not yet completed, each with the time of its dispatch; the skip counter
  (``this skip is observable (counted, not silent)''); the Result Store, an append-only
  log in order of insertion; the results handed to the Broadcaster, in order.
\<close>

record scheduler =
  clock :: nat
  outstanding :: "(nat \<times> nat) list"
  skips :: nat
  store :: "CheckResult list"
  published :: "CheckResult list"

text \<open>
  Modelled from the spec: the back end's scheduler before its first tick, with nothing
  outstanding, counted, stored or published.
\<close>

definition idle :: scheduler where
  "idle = \<lparr>clock = 0, outstanding = [], skips = 0, store = [], published = []\<rparr>"

text \<open>
  Modelled from the spec: what happens to the core. A tick fires, and the fetch of the
  enabled target set succeeds with a list of targets or fails (ConfigFetchFailure); or a
  probe completes with the CheckResult the Probe Executor returns, and the write to the
  Result Store succeeds or fails (PersistenceFailure). Each event comes some time after
  the one before.
\<close>

datatype event =
    Tick "MonitoredTarget list option"
  | Completed CheckResult bool

text \<open>
  Modelled from the spec: the dispatch of one tick, target by target. ``If a tick's probe
  for a target is still running when the next tick fires, that target's new probe for
  this tick is skipped (no overlapping probes), and this skip is observable (counted, not
  silent)''; otherwise one probe is started for the target.
\<close>

fun dispatch :: "MonitoredTarget list \<Rightarrow> scheduler \<Rightarrow> scheduler" where
  "dispatch [] s = s"
| "dispatch (t # ts) s =
     dispatch ts
       (if ident t \<in> fst ` set (outstanding s) then s\<lparr>skips := skips s + 1\<rparr>
        else s\<lparr>outstanding := outstanding s @ [(ident t, clock s)]\<rparr>)"

text \<open>
  Modelled from the spec: one event, \<open>delay\<close> after the previous one; \<open>None\<close> when the
  event cannot happen. On a tick the enabled targets are fetched and dispatched; when the
  fetch fails ``the entire tick is skipped'' and retried at the next tick. A completion
  belongs to an outstanding probe, and the timestamp of its result was read between the
  probe's dispatch and its completion. ``On each probe completion: persist the
  CheckResult, then publish it''; a failed write drops the result ``for persistence
  purposes but [it is] still published live''.
\<close>

fun step :: "scheduler \<Rightarrow> nat \<times> event \<Rightarrow> scheduler option" where
  "step s (delay, Tick None) = Some (s\<lparr>clock := clock s + delay\<rparr>)"
| "step s (delay, Tick (Some targets)) = Some (dispatch targets (s\<lparr>clock := clock s + delay\<rparr>))"
| "step s (delay, Completed r persisted) =
     (case map_of (outstanding s) (target_id r) of
        None \<Rightarrow> None
      | Some dispatched \<Rightarrow>
          if dispatched \<le> checked_at r \<and> checked_at r \<le> clock s + delay
          then Some (s\<lparr>clock := clock s + delay,
                      outstanding := filter (\<lambda>p. fst p \<noteq> target_id r) (outstanding s),
                      store := (if persisted then store s @ [r] else store s),
                      published := published s @ [r]\<rparr>)
          else None)"

text \<open>
  Modelled from the spec: a history of the back end's scheduler, event after event.
\<close>

fun run :: "scheduler \<Rightarrow> (nat \<times> event) list \<Rightarrow> scheduler option" where
  "run s [] = Some s"
| "run s (e # es) = (case step s e of None \<Rightarrow> None | Some s' \<Rightarrow> run s' es)"

text \<open>
  Modelled from the spec: the results that the back end's Result Store holds for one
  target, in order of insertion.
\<close>

definition results_of :: "nat \<Rightarrow> scheduler \<Rightarrow> CheckResult list" where
  "results_of T s = filter (\<lambda>r. target_id r = T) (store s)"

text \<open>
  Modelled from the spec: the invariants of section 3 on the back end's scheduler, with
  what their proof needs. No target has two outstanding probes;
  no probe was dispatched in the future, and every stored result of its target is at
  most as recent as its dispatch; no stored result is from the future; the stored
  timestamps of each target never decrease.
\<close>

definition consistent :: "scheduler \<Rightarrow> bool" where
  "consistent s \<longleftrightarrow>
     distinct (map fst (outstanding s))
     \<and> (\<forall>p \<in> set (outstanding s). snd p \<le> clock s
          \<and> (\<forall>r \<in> set (store s). target_id r = fst p \<longrightarrow> checked_at r \<le> snd p))
     \<and> (\<forall>r \<in> set (store s). checked_at r \<le> clock s)
     \<and> (\<forall>T. sorted (map checked_at (results_of T s)))"

section \<open>Delivery to listeners\<close>

lemma listener_step:
  "\<exists>w'. try_catch (call beh cb data)
           (\<lambda>error. console_error [JStr ''Error in WebSocket listener:'', error]) (log, w)
         = Returned (log @ [(cb, data)], w')"
  by (cases "beh cb data w") (simp_all add: try_catch_def call_def console_error_def)

lemma forEach_listeners:
  "\<exists>w'. forEach
           (\<lambda>callback.
              try_catch (call beh callback data)
                (\<lambda>error. console_error [JStr ''Error in WebSocket listener:'', error]))
           cbs (log, w)
         = Returned (log @ map (\<lambda>cb. (cb, data)) cbs, w')"
proof (induction cbs arbitrary: log w)
  case Nil
  show ?case by simp
next
  case (Cons cb cbs)
  obtain w1 where step:
    "try_catch (call beh cb data)
       (\<lambda>error. console_error [JStr ''Error in WebSocket listener:'', error]) (log, w)
     = Returned (log @ [(cb, data)], w1)"
    using listener_step by blast
  obtain w2 where rest:
    "forEach
       (\<lambda>callback.
          try_catch (call beh callback data)
            (\<lambda>error. console_error [JStr ''Error in WebSocket listener:'', error]))
       cbs (log @ [(cb, data)], w1)
     = Returned ((log @ [(cb, data)]) @ map (\<lambda>cb. (cb, data)) cbs, w2)"
    using Cons.IH by blast
  show ?case using step rest by simp
qed

lemma notify_calls:
  "\<exists>w'. notifyListeners beh data (log, w)
         = Returned (log @ map (\<lambda>cb. (cb, data)) (listeners w), w')"
  unfolding notifyListeners_def using forEach_listeners [of beh data "listeners w" log w] by simp

text \<open>
  Claim C4. Delivery is isolated. Whatever each listener does when it is called, returning
  or throwing, \<open>notifyListeners\<close> returns normally, and it has called every listener of
  the list, once each and in order, with the message: a listener that throws neither stops
  the delivery to the others nor makes the notify call throw.
\<close>

theorem notifyListeners_isolated:
  "\<exists>w'. notifyListeners beh data (log, w)
         = Returned (log @ map (\<lambda>cb. (cb, data)) (listeners w), w')"
  by (rule notify_calls)

text \<open>
  One listener that always throws, subscribed before one that records the message: the
  second still receives it, the error goes to the console, the call returns.
\<close>

lemma notifyListeners_example:
  "notifyListeners
     (\<lambda>c d w. if c = 1 then Threw (JStr ''boom'') w else Returned (w\<lparr>app := app w @ [d]\<rparr>))
     (JNum 7) ([], (constructor [])\<lparr>listeners := [1, 2]\<rparr>)
   = Returned ([(1, JNum 7), (2, JNum 7)],
       (constructor [])\<lparr>listeners := [1, 2],
          console := [[JStr ''Error in WebSocket listener:'', JStr ''boom'']],
          app := [JNum 7]\<rparr>)"
  by (simp add: notifyListeners_def try_catch_def call_def console_error_def constructor_def)

section \<open>Subscribing and unsubscribing\<close>

lemma listeners_unsubscribe:
  "listeners (unsubscribe cb w) = filter (\<lambda>listener. listener \<noteq> cb) (listeners w)"
  by (simp add: unsubscribe_def)

lemma listeners_subscribe:
  "listeners (snd (subscribe cb w)) = listeners w @ [cb]"
  by (simp add: subscribe_def)

lemma fst_subscribe: "fst (subscribe cb w) = unsubscribe cb"
  by (simp add: subscribe_def)

lemma unsubscribe_subscribe_fresh:
  assumes "cb \<notin> set (listeners w)"
  shows "unsubscribe cb (snd (subscribe cb w)) = w"
proof -
  have "filter (\<lambda>listener. listener \<noteq> cb) (listeners w) = listeners w"
    using assms by (induction "listeners w") (auto simp: filter_id_conv)
  then show ?thesis by (simp add: unsubscribe_def subscribe_def)
qed

text \<open>
  A listener that does not re-register \<open>cb\<close> leaves \<open>cb\<close> out of the list; the listeners
  called during one notification are those of the list read at its start.
\<close>

lemma forEach_keeps_out:
  assumes keep: "\<forall>c d v. cb \<notin> set (listeners v) \<longrightarrow> cb \<notin> set (listeners (state_of (beh c d v)))"
    and out: "cb \<notin> set (listeners w)"
  shows "cb \<notin> set (listeners (snd (state_of (forEach
           (\<lambda>callback.
              try_catch (call beh callback data)
                (\<lambda>error. console_error [JStr ''Error in WebSocket listener:'', error]))
           cbs (log, w)))))"
  using out
proof (induction cbs arbitrary: log w)
  case Nil
  then show ?case by simp
next
  case (Cons c cbs)
  have k: "cb \<notin> set (listeners (state_of (beh c data w)))"
    using keep Cons.prems by blast
  show ?case
  proof (cases "beh c data w")
    case (Returned w1)
    with k have "cb \<notin> set (listeners w1)" by simp
    from Cons.IH [OF this] Returned show ?thesis
      by (simp add: try_catch_def call_def)
  next
    case (Threw e w1)
    with k have "cb \<notin> set (listeners (w1\<lparr>console := console w1
        @ [[JStr ''Error in WebSocket listener:'', e]]\<rparr>))" by simp
    from Cons.IH [OF this] Threw show ?thesis
      by (simp add: try_catch_def call_def console_error_def)
  qed
qed

lemma perform_keeps_out:
  assumes keep: "\<forall>c d v. cb \<notin> set (listeners v) \<longrightarrow> cb \<notin> set (listeners (state_of (beh c d v)))"
    and out: "cb \<notin> set (listeners w)"
    and act: "a \<noteq> Subscribe cb"
  shows "\<exists>extra. fst (perform beh a (log, w)) = log @ extra \<and> cb \<notin> fst ` set extra
           \<and> cb \<notin> set (listeners (snd (perform beh a (log, w))))"
proof (cases a)
  case (Subscribe c)
  with act have "c \<noteq> cb" by simp
  with out Subscribe show ?thesis by (simp add: subscribe_def)
next
  case (Unsubscribe c)
  with out show ?thesis by (simp add: unsubscribe_def)
next
  case (Notify data)
  obtain w' where n: "notifyListeners beh data (log, w)
      = Returned (log @ map (\<lambda>c. (c, data)) (listeners w), w')"
    using notify_calls by blast
  have "cb \<notin> set (listeners (snd (state_of (notifyListeners beh data (log, w)))))"
    unfolding notifyListeners_def using forEach_keeps_out [OF keep out] by simp
  moreover have "cb \<notin> fst ` set (map (\<lambda>c. (c, data)) (listeners w))"
    using out by (auto simp: image_iff)
  ultimately show ?thesis using Notify n by simp
qed

lemma perform_all_keeps_out:
  assumes keep: "\<forall>c d v. cb \<notin> set (listeners v) \<longrightarrow> cb \<notin> set (listeners (state_of (beh c d v)))"
    and out: "cb \<notin> set (listeners w)"
    and acts: "Subscribe cb \<notin> set acts"
  shows "\<exists>extra. fst (perform_all beh acts (log, w)) = log @ extra \<and> cb \<notin> fst ` set extra"
  using out acts
proof (induction acts arbitrary: log w)
  case Nil
  then show ?case by simp
next
  case (Cons a acts)
  from Cons.prems have a: "a \<noteq> Subscribe cb" and rest: "Subscribe cb \<notin> set acts" by auto
  obtain e1 where s1: "fst (perform beh a (log, w)) = log @ e1" "cb \<notin> fst ` set e1"
      "cb \<notin> set (listeners (snd (perform beh a (log, w))))"
    using perform_keeps_out [OF keep Cons.prems(1) a] by blast
  obtain e2 where s2:
      "fst (perform_all beh acts (log @ e1, snd (perform beh a (log, w)))) = (log @ e1) @ e2"
      "cb \<notin> fst ` set e2"
    using Cons.IH [OF s1(3) rest] by blast
  have "perform beh a (log, w) = (log @ e1, snd (perform beh a (log, w)))"
    using s1(1) by (metis prod.collapse)
  then have "fst (perform_all beh (a # acts) (log, w)) = log @ (e1 @ e2)"
    using s2(1) by simp
  moreover have "cb \<notin> fst ` set (e1 @ e2)" using s1(2) s2(2) by auto
  ultimately show ?case by blast
qed

text \<open>
  Claim C5. \<open>subscribe\<close> returns an unsubscribe function. Whenever that function is
  invoked (in any later world \<open>w2\<close>), the callback is no longer in the listener list, and
  the next notification calls exactly the remaining listeners; over any further sequence
  of service calls in which nobody subscribes the callback again, no call to it is ever
  recorded. For a callback that was not subscribed, subscribing and then unsubscribing
  gives back the world as it was (the listener list included).
\<close>

theorem subscribe_then_unsubscribe:
  assumes "subscribe callback w = (unsub, w1)"
  shows "callback \<notin> set (listeners (unsub w2))
    \<and> (\<exists>w'. notifyListeners beh data (log, unsub w2)
          = Returned (log @ map (\<lambda>cb. (cb, data))
                (filter (\<lambda>listener. listener \<noteq> callback) (listeners w2)), w'))
    \<and> (Subscribe callback \<notin> set acts
         \<and> (\<forall>c d v. callback \<notin> set (listeners v)
               \<longrightarrow> callback \<notin> set (listeners (state_of (beh c d v))))
        \<longrightarrow> (\<exists>extra. fst (perform_all beh acts (log, unsub w2)) = log @ extra
               \<and> callback \<notin> fst ` set extra))
    \<and> (callback \<notin> set (listeners w) \<longrightarrow> unsub w1 = w)"
proof -
  from assms have u: "unsub = unsubscribe callback"
    and w1: "w1 = snd (subscribe callback w)"
    by (simp_all add: subscribe_def)
  have out: "callback \<notin> set (listeners (unsubscribe callback w2))"
    by (simp add: listeners_unsubscribe)
  have n: "\<exists>w'. notifyListeners beh data (log, unsubscribe callback w2)
          = Returned (log @ map (\<lambda>cb. (cb, data))
                (filter (\<lambda>listener. listener \<noteq> callback) (listeners w2)), w')"
    using notify_calls [of beh data log "unsubscribe callback w2"]
    by (simp add: listeners_unsubscribe)
  have later: "\<exists>extra. fst (perform_all beh acts (log, unsubscribe callback w2)) = log @ extra
               \<and> callback \<notin> fst ` set extra"
    if "Subscribe callback \<notin> set acts"
      and "\<forall>c d v. callback \<notin> set (listeners v)
               \<longrightarrow> callback \<notin> set (listeners (state_of (beh c d v)))"
    using perform_all_keeps_out [OF that(2) out that(1)] by blast
  have restore: "unsubscribe callback (snd (subscribe callback w)) = w"
    if "callback \<notin> set (listeners w)"
    using unsubscribe_subscribe_fresh that by blast
  show ?thesis using u w1 out n later restore by blast
qed

theorem subscribe_then_unsubscribe_witness:
  "subscribe 1 ((constructor ())\<lparr>listeners := [2]\<rparr>)
     = (unsubscribe 1, (constructor ())\<lparr>listeners := [2, 1]\<rparr>)
   \<and> 1 \<notin> set (listeners (unsubscribe 1 ((constructor ())\<lparr>listeners := [2, 1, 3, 1]\<rparr>)))
   \<and> (\<exists>extra. fst (perform_all (\<lambda>c d v. if c = 2 then Threw JNull v else Returned v)
                    [Notify JNull, Unsubscribe 2, Subscribe 4, Notify (JNum 7)]
                    ([], unsubscribe 1 ((constructor ())\<lparr>listeners := [2, 1, 3, 1]\<rparr>)))
                = [] @ extra \<and> 1 \<notin> fst ` set extra)
   \<and> unsubscribe 1 ((constructor ())\<lparr>listeners := [2, 1]\<rparr>)
       = (constructor ())\<lparr>listeners := [2]\<rparr>"
proof -
  have h: "subscribe 1 ((constructor ())\<lparr>listeners := [2]\<rparr>)
     = (unsubscribe 1, (constructor ())\<lparr>listeners := [2, 1]\<rparr>)"
    by (simp add: subscribe_def constructor_def)
  have k: "\<forall>c d v. (1::nat) \<notin> set (listeners v) \<longrightarrow>
      1 \<notin> set (listeners (state_of ((if c = (2::nat) then Threw JNull v else Returned v)
            :: unit world completion)))"
    by simp
  have a: "Subscribe 1 \<notin> set [Notify JNull, Unsubscribe 2, Subscribe 4, Notify (JNum 7)]"
    by simp
  have f: "1 \<notin> set (listeners ((constructor ())\<lparr>listeners := [2]\<rparr>))"
    by (simp add: constructor_def)
  note t = subscribe_then_unsubscribe [OF h,
      of "(constructor ())\<lparr>listeners := [2, 1, 3, 1]\<rparr>"
         "\<lambda>c d v. if c = 2 then Threw JNull v else Returned v" JNull "[]"
         "[Notify JNull, Unsubscribe 2, Subscribe 4, Notify (JNum 7)]"]
  show ?thesis using t h k a f by blast
qed

text \<open>
  Claim C10. The unsubscribe function filters the listener list by reference, so one
  invocation removes every registration of the callback, however many there are: in any
  world, and in particular after the same callback was subscribed \<open>n\<close> times (which adds
  \<open>n\<close> registrations), the list after one unsubscribe holds no occurrence of it, and a
  notification then calls exactly the other listeners.
\<close>

theorem unsubscribe_removes_every_registration:
  "count_list (listeners (subscribe_times n callback w)) callback
     = count_list (listeners w) callback + n
   \<and> listeners (unsubscribe callback (subscribe_times n callback w))
       = filter (\<lambda>listener. listener \<noteq> callback) (listeners w)
   \<and> count_list (listeners (unsubscribe callback w2)) callback = 0
   \<and> (\<exists>w'. notifyListeners beh data (log, unsubscribe callback (subscribe_times n callback w))
          = Returned (log @ map (\<lambda>cb. (cb, data))
                (filter (\<lambda>listener. listener \<noteq> callback) (listeners w)), w'))"
proof -
  have ls: "listeners (subscribe_times n callback w) = listeners w @ replicate n callback"
    by (induction n arbitrary: w) (simp_all add: subscribe_def replicate_app_Cons_same)
  have c: "count_list (listeners (subscribe_times n callback w)) callback
     = count_list (listeners w) callback + n"
    unfolding ls by (induction n) simp_all
  have f: "listeners (unsubscribe callback (subscribe_times n callback w))
       = filter (\<lambda>listener. listener \<noteq> callback) (listeners w)"
    by (simp add: listeners_unsubscribe ls)
  have z: "count_list (listeners (unsubscribe callback w2)) callback = 0"
    by (simp add: listeners_unsubscribe count_list_0_iff)
  have n: "\<exists>w'. notifyListeners beh data (log, unsubscribe callback (subscribe_times n callback w))
          = Returned (log @ map (\<lambda>cb. (cb, data))
                (filter (\<lambda>listener. listener \<noteq> callback) (listeners w)), w')"
    using notify_calls [of beh data log "unsubscribe callback (subscribe_times n callback w)"]
    by (simp only: f)
  show ?thesis using c f z n by blast
qed

section \<open>Upserting the health-status cache\<close>

lemma findIndex_range: "- 1 \<le> findIndex p xs \<and> findIndex p xs < int (length xs)"
  by (induction xs) (auto simp: Let_def)

lemma findIndex_none: "findIndex p xs < 0 \<longleftrightarrow> (\<forall>x\<in>set xs. \<not> p x)"
  by (induction xs) (auto simp: Let_def)

lemma findIndex_first:
  "0 \<le> findIndex p xs \<Longrightarrow>
     nat (findIndex p xs) < length xs \<and> p (xs ! nat (findIndex p xs))
     \<and> (\<forall>j < nat (findIndex p xs). \<not> p (xs ! j))"
proof (induction xs)
  case Nil
  then show ?case by simp
next
  case (Cons x xs)
  show ?case
  proof (cases "p x")
    case True
    then show ?thesis by simp
  next
    case False
    with Cons.prems have ge: "0 \<le> findIndex p xs"
      by (simp add: Let_def split: if_splits)
    then have eq: "findIndex p (x # xs) = findIndex p xs + 1"
      using False by (simp add: Let_def)
    have n: "nat (findIndex p xs + 1) = Suc (nat (findIndex p xs))"
      using ge by simp
    from Cons.IH [OF ge] False show ?thesis
      unfolding eq n by (auto simp: less_Suc_eq_0_disj)
  qed
qed

lemma strict_eq_refl: "strict_eq v v"
  by (cases v) simp_all

lemma strict_eq_sym: "strict_eq a b \<Longrightarrow> strict_eq b a"
  by (cases a; cases b) auto

lemma strict_eq_trans: "strict_eq a b \<Longrightarrow> strict_eq b c \<Longrightarrow> strict_eq a c"
  by (cases a; cases b; cases c) auto

lemma strict_eq_health_update: "strict_eq t (JStr ''health_update'') \<longleftrightarrow> t = JStr ''health_update''"
  by (cases t) auto

lemma read_data_nonnullish:
  assumes "read_data message k = Inr v"
  shows "\<exists>v'. read_data message k' = Inr v'"
proof -
  from assms obtain data where d: "get_prop message ''data'' = Inr data" and "get_prop data k = Inr v"
    by (auto simp: read_data_def and_then_def split: sum.splits)
  then have "\<exists>v'. get_prop data k' = Inr v'"
    by (cases data) auto
  with d show ?thesis by (auto simp: read_data_def and_then_def)
qed

lemma health_entry_reads:
  assumes "read_data message ''url_id'' = Inr url_id"
  shows "\<exists>status response_time status_code checked_at error_message.
           read_data message ''status'' = Inr status
         \<and> read_data message ''response_time'' = Inr response_time
         \<and> read_data message ''status_code'' = Inr status_code
         \<and> read_data message ''checked_at'' = Inr checked_at
         \<and> read_data message ''error_message'' = Inr error_message
         \<and> health_entry message =
              Inr [(''url_id'', url_id), (''status'', status), (''response_time'', response_time),
                   (''status_code'', status_code), (''checked_at'', checked_at),
                   (''error_message'', error_message)]"
proof -
  obtain a where a: "read_data message ''status'' = Inr a"
    using read_data_nonnullish [OF assms] by blast
  obtain b where b: "read_data message ''response_time'' = Inr b"
    using read_data_nonnullish [OF assms] by blast
  obtain c where c: "read_data message ''status_code'' = Inr c"
    using read_data_nonnullish [OF assms] by blast
  obtain d where d: "read_data message ''checked_at'' = Inr d"
    using read_data_nonnullish [OF assms] by blast
  obtain e where e: "read_data message ''error_message'' = Inr e"
    using read_data_nonnullish [OF assms] by blast
  show ?thesis using assms a b c d e by (simp add: health_entry_def and_then_def)
qed

lemma one_per_url_id_iff:
  "one_per_url_id hs \<longleftrightarrow>
     (\<forall>i<length hs. \<forall>j<length hs.
        strict_eq (field (hs ! i) ''url_id'') (field (hs ! j) ''url_id'') \<longrightarrow> i = j)"
proof (induction hs)
  case Nil
  show ?case by simp
next
  case (Cons h hs)
  let ?k = "\<lambda>g. field g ''url_id''"
  show ?case
  proof
    assume a: "one_per_url_id (h # hs)"
    then have tail: "\<forall>i<length hs. \<forall>j<length hs. strict_eq (?k (hs ! i)) (?k (hs ! j)) \<longrightarrow> i = j"
      and head: "\<forall>g\<in>set hs. \<not> strict_eq (?k g) (?k h)"
      using Cons.IH by (simp_all add: list_all_iff)
    show "\<forall>i<length (h # hs). \<forall>j<length (h # hs).
        strict_eq (?k ((h # hs) ! i)) (?k ((h # hs) ! j)) \<longrightarrow> i = j"
    proof (intro allI impI)
      fix i j
      assume i: "i < length (h # hs)" and j: "j < length (h # hs)"
        and e: "strict_eq (?k ((h # hs) ! i)) (?k ((h # hs) ! j))"
      show "i = j"
      proof (cases i)
        case 0
        show ?thesis
        proof (cases j)
          case 0
          with \<open>i = 0\<close> show ?thesis by simp
        next
          case (Suc j')
          with j have "hs ! j' \<in> set hs" by simp
          with head have "\<not> strict_eq (?k (hs ! j')) (?k h)" by blast
          with e \<open>i = 0\<close> Suc show ?thesis using strict_eq_sym by fastforce
        qed
      next
        case (Suc i')
        show ?thesis
        proof (cases j)
          case 0
          from Suc i have "hs ! i' \<in> set hs" by simp
          with head have "\<not> strict_eq (?k (hs ! i')) (?k h)" by blast
          with e 0 Suc show ?thesis by simp
        next
          case (Suc j')
          with \<open>i = Suc i'\<close> i j e tail show ?thesis by simp
        qed
      qed
    qed
  next
    assume a: "\<forall>i<length (h # hs). \<forall>j<length (h # hs).
        strict_eq (?k ((h # hs) ! i)) (?k ((h # hs) ! j)) \<longrightarrow> i = j"
    have tail: "\<forall>i<length hs. \<forall>j<length hs. strict_eq (?k (hs ! i)) (?k (hs ! j)) \<longrightarrow> i = j"
    proof (intro allI impI)
      fix i j
      assume "i < length hs" "j < length hs" "strict_eq (?k (hs ! i)) (?k (hs ! j))"
      then have "Suc i = Suc j" using a [rule_format, of "Suc i" "Suc j"] by simp
      then show "i = j" by simp
    qed
    have head: "\<not> strict_eq (?k g) (?k h)" if "g \<in> set hs" for g
    proof
      assume s: "strict_eq (?k g) (?k h)"
      from that obtain n where n: "n < length hs" "hs ! n = g" by (auto simp: in_set_conv_nth)
      then have "Suc n = 0" using a [rule_format, of "Suc n" 0] s by simp
      then show False by simp
    qed
    show "one_per_url_id (h # hs)"
      using tail head Cons.IH by (simp add: list_all_iff)
  qed
qed

lemma upsert_found:
  assumes "\<exists>h\<in>set hs. p h"
  shows "\<exists>i<length hs. p (hs ! i) \<and> (\<forall>j<i. \<not> p (hs ! j))
           \<and> (let index = findIndex p hs in if index \<ge> 0 then hs[nat index := e] else hs @ [e])
              = hs[i := e]"
proof -
  have ge: "0 \<le> findIndex p hs" using assms findIndex_none [of p hs] by auto
  from findIndex_first [OF ge] ge show ?thesis by (auto simp: Let_def)
qed

lemma upsert_missing:
  assumes "\<not> (\<exists>h\<in>set hs. p h)"
  shows "(let index = findIndex p hs in if index \<ge> 0 then hs[nat index := e] else hs @ [e])
              = hs @ [e]"
  using assms findIndex_none [of p hs] by (auto simp: Let_def)

lemma one_per_url_id_update:
  assumes u: "one_per_url_id hs" and i: "i < length hs"
    and old: "strict_eq (field (hs ! i) ''url_id'') v"
    and new: "strict_eq (field e ''url_id'') v"
  shows "one_per_url_id (hs[i := e])"
  unfolding one_per_url_id_iff
proof (intro allI impI)
  fix a b
  assume a: "a < length (hs[i := e])" and b: "b < length (hs[i := e])"
    and s: "strict_eq (field (hs[i := e] ! a) ''url_id'') (field (hs[i := e] ! b) ''url_id'')"
  have same: "strict_eq (field (hs[i := e] ! n) ''url_id'') (field (hs ! n) ''url_id'')"
    if "n < length hs" for n
  proof (cases "n = i")
    case True
    have "strict_eq (field e ''url_id'') (field (hs ! i) ''url_id'')"
      using strict_eq_trans [OF new strict_eq_sym [OF old]] .
    with True that show ?thesis by simp
  next
    case False
    then show ?thesis by (simp add: strict_eq_refl)
  qed
  from a b have a': "a < length hs" and b': "b < length hs" by simp_all
  have "strict_eq (field (hs ! a) ''url_id'') (field (hs ! b) ''url_id'')"
    using strict_eq_trans [OF strict_eq_sym [OF same [OF a']] strict_eq_trans [OF s same [OF b']]] .
  with u a b show "a = b" unfolding one_per_url_id_iff by simp
qed

lemma one_per_url_id_append:
  assumes u: "one_per_url_id hs"
    and none: "\<forall>h\<in>set hs. \<not> strict_eq (field h ''url_id'') v"
    and new: "strict_eq (field e ''url_id'') v"
  shows "one_per_url_id (hs @ [e])"
  unfolding one_per_url_id_iff
proof (intro allI impI)
  fix a b
  assume a: "a < length (hs @ [e])" and b: "b < length (hs @ [e])"
    and s: "strict_eq (field ((hs @ [e]) ! a) ''url_id'') (field ((hs @ [e]) ! b) ''url_id'')"
  have differs: "\<not> strict_eq (field (hs ! n) ''url_id'') (field e ''url_id'')"
    if "n < length hs" for n
  proof
    assume "strict_eq (field (hs ! n) ''url_id'') (field e ''url_id'')"
    then have "strict_eq (field (hs ! n) ''url_id'') v"
      using new strict_eq_trans by blast
    moreover have "hs ! n \<in> set hs" using that by simp
    ultimately show False using none by blast
  qed
  consider "a < length hs" "b < length hs" | "a < length hs" "b = length hs"
    | "a = length hs" "b < length hs" | "a = length hs" "b = length hs"
    using a b by (auto simp: less_Suc_eq)
  then show "a = b"
  proof cases
    case 1
    with s u show ?thesis unfolding one_per_url_id_iff by (simp add: nth_append)
  next
    case 2
    with s differs [of a] show ?thesis by (simp add: nth_append)
  next
    case 3
    with s differs [of b] strict_eq_sym [of "field e ''url_id''" "field (hs ! b) ''url_id''"]
    show ?thesis by (simp add: nth_append)
  next
    case 4
    then show ?thesis by simp
  qed
qed

lemma handle_health_update:
  assumes type: "get_prop message ''type'' = Inr (JStr ''health_update'')"
    and uid: "read_data message ''url_id'' = Inr url_id"
    and entry: "health_entry message = Inr entry"
  shows "handleWebSocketMessage now message prev =
           Inr (prev\<lparr>healthStatuses :=
                  (let index = findIndex (\<lambda>h. strict_eq (field h ''url_id'') url_id)
                                 (healthStatuses prev)
                   in if index \<ge> 0 then (healthStatuses prev)[nat index := entry]
                      else healthStatuses prev @ [entry]),
                lastUpdated := Some now\<rparr>)"
  using assms by (simp add: handleWebSocketMessage_def update_health_def and_then_def Let_def)

text \<open>
  A \<^verbatim>\<open>health_update\<close> message without data makes the update throw; a message of another
  type leaves the cache as it is.
\<close>

lemma health_update_without_data:
  "handleWebSocketMessage now (JObj r [(''type'', JStr ''health_update'')]) prev = Inl TypeError"
  by (simp add: handleWebSocketMessage_def update_health_def read_data_def and_then_def field_def)

lemma other_message_ignored:
  assumes "get_prop message ''type'' = Inr t" and "t \<noteq> JStr ''health_update''"
  shows "handleWebSocketMessage now message prev = Inr prev"
  using assms by (simp add: handleWebSocketMessage_def and_then_def strict_eq_health_update)

text \<open>
  Claim C8. The handler upserts the cache by \<^verbatim>\<open>url_id\<close>. For a \<^verbatim>\<open>health_update\<close> message
  whose \<^verbatim>\<open>data.url_id\<close> can be read, the new cache is the old one with a new list of health
  statuses and a new time. If an entry with the message's \<^verbatim>\<open>url_id\<close> exists, the first such
  entry is replaced by the entry built from the message and the list keeps its length;
  otherwise the entry is appended. A list with at most one entry per \<^verbatim>\<open>url_id\<close> stays so,
  and every entry with another \<^verbatim>\<open>url_id\<close> stays where it was, unchanged.
\<close>

theorem health_update_upsert:
  assumes type: "get_prop message ''type'' = Inr (JStr ''health_update'')"
    and uid: "read_data message ''url_id'' = Inr url_id"
  shows "\<exists>entry hs'.
      health_entry message = Inr entry \<and> field entry ''url_id'' = url_id
    \<and> handleWebSocketMessage now message prev
        = Inr (prev\<lparr>healthStatuses := hs', lastUpdated := Some now\<rparr>)
    \<and> ((\<exists>h\<in>set (healthStatuses prev). strict_eq (field h ''url_id'') url_id) \<longrightarrow>
         length hs' = length (healthStatuses prev)
         \<and> (\<exists>i<length (healthStatuses prev).
               strict_eq (field (healthStatuses prev ! i) ''url_id'') url_id
             \<and> (\<forall>j<i. \<not> strict_eq (field (healthStatuses prev ! j) ''url_id'') url_id)
             \<and> hs' = (healthStatuses prev)[i := entry]))
    \<and> (\<not> (\<exists>h\<in>set (healthStatuses prev). strict_eq (field h ''url_id'') url_id) \<longrightarrow>
         hs' = healthStatuses prev @ [entry])
    \<and> (one_per_url_id (healthStatuses prev) \<longrightarrow> one_per_url_id hs')
    \<and> (\<forall>j<length (healthStatuses prev).
          \<not> strict_eq (field (healthStatuses prev ! j) ''url_id'') url_id \<longrightarrow>
          j < length hs' \<and> hs' ! j = healthStatuses prev ! j)"
proof -
  let ?hs = "healthStatuses prev"
  let ?p = "\<lambda>h. strict_eq (field h ''url_id'') url_id"
  obtain entry where entry: "health_entry message = Inr entry"
    and key: "field entry ''url_id'' = url_id"
    using health_entry_reads [OF uid] by (auto simp: field_def)
  define hs' where "hs' = (let index = findIndex ?p ?hs
      in if index \<ge> 0 then ?hs[nat index := entry] else ?hs @ [entry])"
  have new: "strict_eq (field entry ''url_id'') url_id"
    using key by (simp add: strict_eq_refl)
  have res: "handleWebSocketMessage now message prev
        = Inr (prev\<lparr>healthStatuses := hs', lastUpdated := Some now\<rparr>)"
    unfolding hs'_def by (rule handle_health_update [OF type uid entry])
  have found: "length hs' = length ?hs
         \<and> (\<exists>i<length ?hs. ?p (?hs ! i) \<and> (\<forall>j<i. \<not> ?p (?hs ! j)) \<and> hs' = ?hs[i := entry])"
    if "\<exists>h\<in>set ?hs. ?p h"
  proof -
    from upsert_found [of ?hs ?p entry, OF that]
    obtain i where "i < length ?hs" "?p (?hs ! i)" "\<forall>j<i. \<not> ?p (?hs ! j)" "hs' = ?hs[i := entry]"
      unfolding hs'_def by blast
    then show ?thesis by auto
  qed
  have missing: "hs' = ?hs @ [entry]" if "\<not> (\<exists>h\<in>set ?hs. ?p h)"
    unfolding hs'_def using upsert_missing [of ?hs ?p entry, OF that] .
  have unique: "one_per_url_id hs'" if u: "one_per_url_id ?hs"
  proof (cases "\<exists>h\<in>set ?hs. ?p h")
    case True
    from found [OF True] obtain i where "i < length ?hs" "?p (?hs ! i)" "hs' = ?hs[i := entry]"
      by blast
    then show ?thesis using one_per_url_id_update [OF u _ _ new] by simp
  next
    case False
    then have "\<forall>h\<in>set ?hs. \<not> ?p h" by blast
    from one_per_url_id_append [OF u this new] missing [OF False] show ?thesis by simp
  qed
  have others: "j < length hs' \<and> hs' ! j = ?hs ! j" if j: "j < length ?hs" and n: "\<not> ?p (?hs ! j)" for j
  proof (cases "\<exists>h\<in>set ?hs. ?p h")
    case True
    from found [OF True] obtain i where i: "i < length ?hs" "?p (?hs ! i)" "hs' = ?hs[i := entry]"
      by blast
    with n have "i \<noteq> j" by auto
    with i j show ?thesis by simp
  next
    case False
    from missing [OF False] j show ?thesis by (simp add: nth_append)
  qed
  show ?thesis
    using entry key res found missing unique others by blast
qed

theorem health_update_upsert_witness:
  "get_prop (JObj 1 [(''type'', JStr ''health_update''),
                     (''data'', JObj 2 [(''url_id'', JNum 1), (''status'', JStr ''offline''),
                        (''response_time'', JNull), (''status_code'', JNull),
                        (''checked_at'', JStr ''2025-01-15T10:31:00''),
                        (''error_message'', JStr ''timeout'')])]) ''type''
     = Inr (JStr ''health_update'')
   \<and> read_data (JObj 1 [(''type'', JStr ''health_update''),
                     (''data'', JObj 2 [(''url_id'', JNum 1), (''status'', JStr ''offline''),
                        (''response_time'', JNull), (''status_code'', JNull),
                        (''checked_at'', JStr ''2025-01-15T10:31:00''),
                        (''error_message'', JStr ''timeout'')])]) ''url_id''
     = Inr (JNum 1)
   \<and> one_per_url_id [[(''url_id'', JNum 1), (''status'', JStr ''online'')],
                      [(''url_id'', JNum 2), (''status'', JStr ''online'')]]
   \<and> (\<exists>hs'. handleWebSocketMessage 5
          (JObj 1 [(''type'', JStr ''health_update''),
                     (''data'', JObj 2 [(''url_id'', JNum 1), (''status'', JStr ''offline''),
                        (''response_time'', JNull), (''status_code'', JNull),
                        (''checked_at'', JStr ''2025-01-15T10:31:00''),
                        (''error_message'', JStr ''timeout'')])])
          (initial_cache\<lparr>healthStatuses :=
             [[(''url_id'', JNum 1), (''status'', JStr ''online'')],
              [(''url_id'', JNum 2), (''status'', JStr ''online'')]]\<rparr>)
        = Inr (initial_cache\<lparr>healthStatuses := hs', lastUpdated := Some 5\<rparr>)
      \<and> hs' = [[(''url_id'', JNum 1), (''status'', JStr ''offline''),
                (''response_time'', JNull), (''status_code'', JNull),
                (''checked_at'', JStr ''2025-01-15T10:31:00''),
                (''error_message'', JStr ''timeout'')],
               [(''url_id'', JNum 2), (''status'', JStr ''online'')]]
      \<and> one_per_url_id hs')"
proof -
  let ?m = "JObj 1 [(''type'', JStr ''health_update''),
                     (''data'', JObj 2 [(''url_id'', JNum 1), (''status'', JStr ''offline''),
                        (''response_time'', JNull), (''status_code'', JNull),
                        (''checked_at'', JStr ''2025-01-15T10:31:00''),
                        (''error_message'', JStr ''timeout'')])]"
  let ?hs = "[[(''url_id'', JNum 1), (''status'', JStr ''online'')],
              [(''url_id'', JNum 2), (''status'', JStr ''online'')]]"
  let ?prev = "initial_cache\<lparr>healthStatuses := ?hs\<rparr>"
  have t: "get_prop ?m ''type'' = Inr (JStr ''health_update'')"
    by (simp add: field_def)
  have u: "read_data ?m ''url_id'' = Inr (JNum 1)"
    by (simp add: read_data_def and_then_def field_def)
  have o: "one_per_url_id ?hs" by (simp add: field_def)
  have e: "health_entry ?m = Inr [(''url_id'', JNum 1), (''status'', JStr ''offline''),
                (''response_time'', JNull), (''status_code'', JNull),
                (''checked_at'', JStr ''2025-01-15T10:31:00''),
                (''error_message'', JStr ''timeout'')]"
    by (simp add: health_entry_def read_data_def and_then_def field_def)
  have ev: "handleWebSocketMessage 5 ?m ?prev
      = Inr (?prev\<lparr>healthStatuses := [[(''url_id'', JNum 1), (''status'', JStr ''offline''),
                (''response_time'', JNull), (''status_code'', JNull),
                (''checked_at'', JStr ''2025-01-15T10:31:00''),
                (''error_message'', JStr ''timeout'')],
               [(''url_id'', JNum 2), (''status'', JStr ''online'')]], lastUpdated := Some 5\<rparr>)"
    by (simp add: handleWebSocketMessage_def update_health_def health_entry_def read_data_def
        and_then_def field_def initial_cache_def)
  from health_update_upsert [OF t u, of 5 ?prev]
  obtain hs' where r:
    "handleWebSocketMessage 5 ?m ?prev = Inr (?prev\<lparr>healthStatuses := hs', lastUpdated := Some 5\<rparr>)"
    "one_per_url_id (healthStatuses ?prev) \<longrightarrow> one_per_url_id hs'"
    by blast
  from r(1) ev have "healthStatuses (?prev\<lparr>healthStatuses := hs', lastUpdated := Some 5\<rparr>)
      = healthStatuses (?prev\<lparr>healthStatuses := [[(''url_id'', JNum 1), (''status'', JStr ''offline''),
                (''response_time'', JNull), (''status_code'', JNull),
                (''checked_at'', JStr ''2025-01-15T10:31:00''),
                (''error_message'', JStr ''timeout'')],
               [(''url_id'', JNum 2), (''status'', JStr ''online'')]], lastUpdated := Some 5\<rparr>)"
    by simp
  then have hs': "hs' = [[(''url_id'', JNum 1), (''status'', JStr ''offline''),
                (''response_time'', JNull), (''status_code'', JNull),
                (''checked_at'', JStr ''2025-01-15T10:31:00''),
                (''error_message'', JStr ''timeout'')],
               [(''url_id'', JNum 2), (''status'', JStr ''online'')]]"
    by simp
  from r(2) o have "one_per_url_id hs'" by simp
  with t u o r(1) hs' show ?thesis by simp
qed

section \<open>The status shown for a target\<close>

lemma find_after_upsert:
  assumes e: "p e"
  shows "find p (let index = findIndex p hs in if index \<ge> 0 then hs[nat index := e] else hs @ [e])
           = Some e"
proof (cases "\<exists>h\<in>set hs. p h")
  case True
  from upsert_found [of hs p e, OF True]
  obtain i where i: "i < length hs" "\<forall>j<i. \<not> p (hs ! j)"
    and eq: "(let index = findIndex p hs in if index \<ge> 0 then hs[nat index := e] else hs @ [e])
              = hs[i := e]"
    by blast
  have "find p (hs[i := e]) = Some e"
    unfolding find_Some_iff
  proof (intro exI [of _ i] conjI)
    show "i < length (hs[i := e])" using i(1) by simp
    show "p (hs[i := e] ! i)" using i(1) e by simp
    show "e = hs[i := e] ! i" using i(1) by simp
    show "\<forall>j<i. \<not> p (hs[i := e] ! j)" using i by simp
  qed
  with eq show ?thesis by simp
next
  case False
  have "find p (hs @ [e]) = Some e"
    unfolding find_Some_iff
  proof (intro exI [of _ "length hs"] conjI)
    show "length hs < length (hs @ [e])" by simp
    show "p ((hs @ [e]) ! length hs)" using e by simp
    show "e = (hs @ [e]) ! length hs" by simp
    show "\<forall>j<length hs. \<not> p ((hs @ [e]) ! j)" using False by (simp add: nth_append)
  qed
  with upsert_missing [of hs p e, OF False] show ?thesis by simp
qed

lemma getHealthStatus_none:
  assumes "\<not> (\<exists>h\<in>set statuses. strict_eq (field h ''url_id'') urlId)"
  shows "getHealthStatus statuses urlId = JStr ''offline''"
proof -
  have "find (\<lambda>h. strict_eq (field h ''url_id'') urlId) statuses = None"
    using assms by (simp add: find_None_iff)
  then show ?thesis by (simp add: getHealthStatus_def js_or_def)
qed

lemma getHealthStatus_some:
  assumes "find (\<lambda>h. strict_eq (field h ''url_id'') urlId) statuses = Some h"
  shows "getHealthStatus statuses urlId
           = (if truthy (field h ''status'') then field h ''status'' else JStr ''offline'')"
  using assms by (simp add: getHealthStatus_def js_or_def)

text \<open>
  Claim C2, as the code has it. For a target with no entry in the list of health statuses
  \<open>getHealthStatus\<close> returns \<^verbatim>\<open>'offline'\<close>. For a target with an entry it returns the status
  of the first entry with that \<^verbatim>\<open>url_id\<close>, or \<^verbatim>\<open>'offline'\<close> when that status is missing or
  empty; after a \<^verbatim>\<open>health_update\<close> message for the target, that is the status the message
  carried, the latest result.
\<close>

theorem getHealthStatus_offline_default:
  "(\<not> (\<exists>h\<in>set statuses. strict_eq (field h ''url_id'') urlId)
      \<longrightarrow> getHealthStatus statuses urlId = JStr ''offline'')
   \<and> (\<forall>h. find (\<lambda>h. strict_eq (field h ''url_id'') urlId) statuses = Some h
      \<longrightarrow> getHealthStatus statuses urlId
            = (if truthy (field h ''status'') then field h ''status'' else JStr ''offline''))
   \<and> (get_prop message ''type'' = Inr (JStr ''health_update'')
        \<and> read_data message ''url_id'' = Inr urlId
        \<and> read_data message ''status'' = Inr st
      \<longrightarrow> (\<exists>cache'. handleWebSocketMessage now message prev = Inr cache'
            \<and> getHealthStatus (healthStatuses cache') urlId
                = (if truthy st then st else JStr ''offline'')))"
proof (intro conjI allI impI)
  assume "\<not> (\<exists>h\<in>set statuses. strict_eq (field h ''url_id'') urlId)"
  then show "getHealthStatus statuses urlId = JStr ''offline''"
    by (rule getHealthStatus_none)
next
  fix h
  assume "find (\<lambda>h. strict_eq (field h ''url_id'') urlId) statuses = Some h"
  then show "getHealthStatus statuses urlId
            = (if truthy (field h ''status'') then field h ''status'' else JStr ''offline'')"
    by (rule getHealthStatus_some)
next
  assume a: "get_prop message ''type'' = Inr (JStr ''health_update'')
        \<and> read_data message ''url_id'' = Inr urlId
        \<and> read_data message ''status'' = Inr st"
  then have type: "get_prop message ''type'' = Inr (JStr ''health_update'')"
    and uid: "read_data message ''url_id'' = Inr urlId"
    and st: "read_data message ''status'' = Inr st" by simp_all
  let ?p = "\<lambda>h. strict_eq (field h ''url_id'') urlId"
  obtain entry where entry: "health_entry message = Inr entry"
    and key: "field entry ''url_id'' = urlId" and s: "field entry ''status'' = st"
    using health_entry_reads [OF uid] st by (auto simp: field_def)
  have p: "?p entry" using key by (simp add: strict_eq_refl)
  let ?hs' = "let index = findIndex ?p (healthStatuses prev)
              in if index \<ge> 0 then (healthStatuses prev)[nat index := entry]
                 else healthStatuses prev @ [entry]"
  have f: "find ?p ?hs' = Some entry"
    using find_after_upsert [of ?p entry "healthStatuses prev", OF p] .
  have "getHealthStatus ?hs' urlId = (if truthy st then st else JStr ''offline'')"
    using getHealthStatus_some [OF f] s by simp
  moreover have "handleWebSocketMessage now message prev
      = Inr (prev\<lparr>healthStatuses := ?hs', lastUpdated := Some now\<rparr>)"
    by (rule handle_health_update [OF type uid entry])
  ultimately show "\<exists>cache'. handleWebSocketMessage now message prev = Inr cache'
            \<and> getHealthStatus (healthStatuses cache') urlId
                = (if truthy st then st else JStr ''offline'')"
    by simp
qed

text \<open>
  The claim as stated fails on a target without any result: the status shown is
  \<^verbatim>\<open>'offline'\<close>, not \<^verbatim>\<open>'unknown'\<close>.
\<close>

theorem getHealthStatus_unknown_counterexample:
  "getHealthStatus (healthStatuses initial_cache) (JNum 4) = JStr ''offline''
   \<and> getHealthStatus (healthStatuses initial_cache) (JNum 4) \<noteq> JStr ''unknown''"
  by (simp add: getHealthStatus_def initial_cache_def js_or_def)

theorem getHealthStatus_offline_default_witness:
  "getHealthStatus [[(''url_id'', JNum 2), (''status'', JStr ''online'')]] (JNum 4) = JStr ''offline''
   \<and> getHealthStatus [[(''url_id'', JNum 2), (''status'', JStr ''online'')],
                        [(''url_id'', JNum 4), (''status'', JStr ''online'')],
                        [(''url_id'', JNum 4), (''status'', JStr ''offline'')]] (JNum 4)
       = JStr ''online''
   \<and> getHealthStatus [[(''url_id'', JNum 4), (''status'', JStr '''')]] (JNum 4) = JStr ''offline''
   \<and> (\<exists>cache'. handleWebSocketMessage 9
          (JObj 1 [(''type'', JStr ''health_update''),
                   (''data'', JObj 2 [(''url_id'', JNum 4), (''status'', JStr ''online'')])])
          (initial_cache\<lparr>healthStatuses := [[(''url_id'', JNum 4), (''status'', JStr ''offline'')]]\<rparr>)
        = Inr cache'
      \<and> getHealthStatus (healthStatuses cache') (JNum 4) = JStr ''online'')"
proof -
  let ?m = "JObj 1 [(''type'', JStr ''health_update''),
                   (''data'', JObj 2 [(''url_id'', JNum 4), (''status'', JStr ''online'')])]"
  let ?prev = "initial_cache\<lparr>healthStatuses := [[(''url_id'', JNum 4), (''status'', JStr ''offline'')]]\<rparr>"
  have a: "getHealthStatus [[(''url_id'', JNum 2), (''status'', JStr ''online'')]] (JNum 4)
      = JStr ''offline''"
    using getHealthStatus_offline_default
      [where statuses = "[[(''url_id'', JNum 2), (''status'', JStr ''online'')]]"
         and urlId = "JNum 4"]
    by (simp add: field_def)
  have b: "getHealthStatus [[(''url_id'', JNum 2), (''status'', JStr ''online'')],
                        [(''url_id'', JNum 4), (''status'', JStr ''online'')],
                        [(''url_id'', JNum 4), (''status'', JStr ''offline'')]] (JNum 4)
       = JStr ''online''"
    using getHealthStatus_offline_default
      [where statuses = "[[(''url_id'', JNum 2), (''status'', JStr ''online'')],
                        [(''url_id'', JNum 4), (''status'', JStr ''online'')],
                        [(''url_id'', JNum 4), (''status'', JStr ''offline'')]]"
         and urlId = "JNum 4"]
    by (simp add: field_def)
  have c: "getHealthStatus [[(''url_id'', JNum 4), (''status'', JStr '''')]] (JNum 4) = JStr ''offline''"
    using getHealthStatus_offline_default
      [of "[[(''url_id'', JNum 4), (''status'', JStr '''')]]" "JNum 4"]
    by (simp add: field_def)
  have d: "\<exists>cache'. handleWebSocketMessage 9 ?m ?prev = Inr cache'
      \<and> getHealthStatus (healthStatuses cache') (JNum 4) = JStr ''online''"
    using getHealthStatus_offline_default
      [where message = ?m and urlId = "JNum 4" and st = "JStr ''online''" and now = 9
         and prev = ?prev]
    by (simp add: read_data_def and_then_def field_def)
  from a b c d show ?thesis by blast
qed

section \<open>The fields of a health update\<close>

lemma read_data_object:
  assumes "get_prop message ''data'' = Inr (JObj r ds)"
  shows "read_data message k = Inr (field ds k)"
  using assms by (simp add: read_data_def and_then_def)

lemma health_entry_object:
  assumes "get_prop message ''data'' = Inr (JObj r ds)"
  shows "health_entry message =
           Inr [(''url_id'', field ds ''url_id''), (''status'', field ds ''status''),
                (''response_time'', field ds ''response_time''),
                (''status_code'', field ds ''status_code''),
                (''checked_at'', field ds ''checked_at''),
                (''error_message'', field ds ''error_message'')]"
  by (simp add: health_entry_def and_then_def read_data_object [OF assms])

lemma find_Some_member: "find p xs = Some x \<Longrightarrow> x \<in> set xs"
  by (induction xs) (auto split: if_splits)

text \<open>
  Claim C1, as the code has it. From a message \<^verbatim>\<open>{ type: "health_update", data: {...} }\<close>
  the handler consumes the six fields \<^verbatim>\<open>url_id\<close>, \<^verbatim>\<open>status\<close>, \<^verbatim>\<open>response_time\<close>,
  \<^verbatim>\<open>status_code\<close>, \<^verbatim>\<open>checked_at\<close> and \<^verbatim>\<open>error_message\<close> of the data: the entry made of
  exactly these six is in the new cache, and two messages whose data agree on these six
  fields have the same effect, whatever else they carry. The field that names the target
  is \<^verbatim>\<open>url_id\<close>.
\<close>

theorem health_update_shape:
  assumes type: "get_prop message ''type'' = Inr (JStr ''health_update'')"
    and data: "get_prop message ''data'' = Inr (JObj r ds)"
  shows "\<exists>hs'.
      handleWebSocketMessage now message prev
        = Inr (prev\<lparr>healthStatuses := hs', lastUpdated := Some now\<rparr>)
    \<and> [(''url_id'', field ds ''url_id''), (''status'', field ds ''status''),
        (''response_time'', field ds ''response_time''),
        (''status_code'', field ds ''status_code''),
        (''checked_at'', field ds ''checked_at''),
        (''error_message'', field ds ''error_message'')] \<in> set hs'
    \<and> (\<forall>message' r' ds'.
          get_prop message' ''type'' = Inr (JStr ''health_update'')
          \<and> get_prop message' ''data'' = Inr (JObj r' ds')
          \<and> (\<forall>k \<in> set [''url_id'', ''status'', ''response_time'', ''status_code'',
                          ''checked_at'', ''error_message'']. field ds' k = field ds k)
          \<longrightarrow> handleWebSocketMessage now message' prev
                = handleWebSocketMessage now message prev)"
proof -
  let ?entry = "[(''url_id'', field ds ''url_id''), (''status'', field ds ''status''),
        (''response_time'', field ds ''response_time''),
        (''status_code'', field ds ''status_code''),
        (''checked_at'', field ds ''checked_at''),
        (''error_message'', field ds ''error_message'')]"
  let ?p = "\<lambda>h. strict_eq (field h ''url_id'') (field ds ''url_id'')"
  let ?hs' = "let index = findIndex ?p (healthStatuses prev)
              in if index \<ge> 0 then (healthStatuses prev)[nat index := ?entry]
                 else healthStatuses prev @ [?entry]"
  have res: "handleWebSocketMessage now message prev
        = Inr (prev\<lparr>healthStatuses := ?hs', lastUpdated := Some now\<rparr>)"
    by (rule handle_health_update
          [OF type read_data_object [OF data] health_entry_object [OF data]])
  have "?p ?entry" by (simp add: field_def strict_eq_refl)
  from find_after_upsert [of ?p ?entry "healthStatuses prev", OF this]
  have mem: "?entry \<in> set ?hs'"
    by (rule find_Some_member)
  have same: "handleWebSocketMessage now message' prev = handleWebSocketMessage now message prev"
    if t': "get_prop message' ''type'' = Inr (JStr ''health_update'')"
      and d': "get_prop message' ''data'' = Inr (JObj r' ds')"
      and k: "\<forall>k \<in> set [''url_id'', ''status'', ''response_time'', ''status_code'',
                          ''checked_at'', ''error_message'']. field ds' k = field ds k"
    for message' r' ds'
  proof -
    from k have e: "field ds' ''url_id'' = field ds ''url_id''"
      "field ds' ''status'' = field ds ''status''"
      "field ds' ''response_time'' = field ds ''response_time''"
      "field ds' ''status_code'' = field ds ''status_code''"
      "field ds' ''checked_at'' = field ds ''checked_at''"
      "field ds' ''error_message'' = field ds ''error_message''"
      by simp_all
    have "handleWebSocketMessage now message' prev
        = Inr (prev\<lparr>healthStatuses := ?hs', lastUpdated := Some now\<rparr>)"
      using handle_health_update
          [OF t' read_data_object [OF d'] health_entry_object [OF d'], of now prev]
      unfolding e .
    with res show ?thesis by simp
  qed
  show ?thesis
    apply (rule exI [of _ ?hs'])
    using res mem same by blast
qed

text \<open>
  The claim as stated fails: of a message that names the target in a field \<^verbatim>\<open>target_id\<close>
  the handler stores an entry whose \<^verbatim>\<open>url_id\<close> is \<^verbatim>\<open>undefined\<close>, and the table still
  shows target 7 as \<^verbatim>\<open>'offline'\<close> although the message said \<^verbatim>\<open>'online'\<close>.
\<close>

theorem health_update_target_id_counterexample:
  "handleWebSocketMessage 0
     (JObj 1 [(''type'', JStr ''health_update''),
              (''data'', JObj 2 [(''target_id'', JNum 7), (''status'', JStr ''online''),
                 (''response_time'', JNum 120), (''status_code'', JNum 200),
                 (''checked_at'', JStr ''2025-01-15T10:30:00''), (''error_message'', JNull)])])
     initial_cache
   = Inr (initial_cache\<lparr>healthStatuses :=
            [[(''url_id'', JUndefined), (''status'', JStr ''online''),
              (''response_time'', JNum 120), (''status_code'', JNum 200),
              (''checked_at'', JStr ''2025-01-15T10:30:00''), (''error_message'', JNull)]],
          lastUpdated := Some 0\<rparr>)
   \<and> getHealthStatus
        [[(''url_id'', JUndefined), (''status'', JStr ''online''),
          (''response_time'', JNum 120), (''status_code'', JNum 200),
          (''checked_at'', JStr ''2025-01-15T10:30:00''), (''error_message'', JNull)]]
        (JNum 7)
      = JStr ''offline''"
  by (simp add: handleWebSocketMessage_def update_health_def health_entry_def read_data_def
      and_then_def field_def initial_cache_def getHealthStatus_def js_or_def)

theorem health_update_shape_witness:
  "get_prop (JObj 1 [(''type'', JStr ''health_update''),
              (''data'', JObj 2 [(''url_id'', JNum 7), (''status'', JStr ''online''),
                 (''response_time'', JNum 120), (''status_code'', JNum 200),
                 (''checked_at'', JStr ''2025-01-15T10:30:00''), (''error_message'', JNull)])])
     ''type'' = Inr (JStr ''health_update'')
   \<and> handleWebSocketMessage 3
       (JObj 3 [(''type'', JStr ''health_update''),
              (''data'', JObj 4 [(''target_id'', JNum 8), (''url_id'', JNum 7),
                 (''status'', JStr ''online''),
                 (''response_time'', JNum 120), (''status_code'', JNum 200),
                 (''checked_at'', JStr ''2025-01-15T10:30:00'')])])
       initial_cache
     = handleWebSocketMessage 3
       (JObj 1 [(''type'', JStr ''health_update''),
              (''data'', JObj 2 [(''url_id'', JNum 7), (''status'', JStr ''online''),
                 (''response_time'', JNum 120), (''status_code'', JNum 200),
                 (''checked_at'', JStr ''2025-01-15T10:30:00''), (''error_message'', JUndefined)])])
       initial_cache"
proof -
  let ?ds = "[(''url_id'', JNum 7), (''status'', JStr ''online''),
                 (''response_time'', JNum 120), (''status_code'', JNum 200),
                 (''checked_at'', JStr ''2025-01-15T10:30:00''), (''error_message'', JUndefined)]"
  let ?m = "JObj 1 [(''type'', JStr ''health_update''), (''data'', JObj 2 ?ds)]"
  let ?ds' = "[(''target_id'', JNum 8), (''url_id'', JNum 7),
                 (''status'', JStr ''online''),
                 (''response_time'', JNum 120), (''status_code'', JNum 200),
                 (''checked_at'', JStr ''2025-01-15T10:30:00'')]"
  let ?m' = "JObj 3 [(''type'', JStr ''health_update''), (''data'', JObj 4 ?ds')]"
  have t: "get_prop ?m ''type'' = Inr (JStr ''health_update'')" by (simp add: field_def)
  have d: "get_prop ?m ''data'' = Inr (JObj 2 ?ds)" by (simp add: field_def)
  have t': "get_prop ?m' ''type'' = Inr (JStr ''health_update'')" by (simp add: field_def)
  have d': "get_prop ?m' ''data'' = Inr (JObj 4 ?ds')" by (simp add: field_def)
  have k: "\<forall>k \<in> set [''url_id'', ''status'', ''response_time'', ''status_code'',
                          ''checked_at'', ''error_message'']. field ?ds' k = field ?ds k"
    by (simp add: field_def)
  from health_update_shape [OF t d, of 3 initial_cache] t' d' k
  have "handleWebSocketMessage 3 ?m' initial_cache = handleWebSocketMessage 3 ?m initial_cache"
    by blast
  then show ?thesis by (simp add: field_def)
qed

section \<open>The scheduler: no overlapping probes, ordered timestamps\<close>

subsection \<open>dispatch\<close>

lemma dispatch_clock [simp]: "clock (dispatch ts s) = clock s"
  by (induction ts arbitrary: s) simp_all

lemma dispatch_store [simp]: "store (dispatch ts s) = store s"
  by (induction ts arbitrary: s) simp_all

lemma dispatch_published [simp]: "published (dispatch ts s) = published s"
  by (induction ts arbitrary: s) simp_all

lemma dispatch_distinct:
  "distinct (map fst (outstanding s)) \<Longrightarrow> distinct (map fst (outstanding (dispatch ts s)))"
  by (induction ts arbitrary: s) auto

lemma dispatch_outstanding:
  "p \<in> set (outstanding (dispatch ts s)) \<Longrightarrow>
     p \<in> set (outstanding s) \<or> (snd p = clock s \<and> fst p \<in> ident ` set ts
        \<and> fst p \<notin> fst ` set (outstanding s))"
proof (induction ts arbitrary: s)
  case Nil
  then show ?case by simp
next
  case (Cons t ts)
  show ?case
  proof (cases "ident t \<in> fst ` set (outstanding s)")
    case True
    with Cons.prems have "p \<in> set (outstanding (dispatch ts (s\<lparr>skips := skips s + 1\<rparr>)))"
      by simp
    from Cons.IH [OF this] show ?thesis by auto
  next
    case False
    with Cons.prems have
      "p \<in> set (outstanding (dispatch ts (s\<lparr>outstanding := outstanding s @ [(ident t, clock s)]\<rparr>)))"
      by simp
    from Cons.IH [OF this] False show ?thesis by (auto simp: image_iff)
  qed
qed

lemma dispatch_keeps:
  "p \<in> set (outstanding s) \<Longrightarrow> p \<in> set (outstanding (dispatch ts s))"
  by (induction ts arbitrary: s) auto

lemma dispatch_starts:
  "t \<in> set ts \<Longrightarrow> ident t \<in> fst ` set (outstanding (dispatch ts s))"
proof (induction ts arbitrary: s)
  case Nil
  then show ?case by simp
next
  case (Cons a ts)
  show ?case
  proof (cases "t \<in> set ts")
    case True
    from Cons.IH [OF True] show ?thesis by simp
  next
    case False
    with Cons.prems have ta: "t = a" by simp
    have "\<exists>d. (ident a, d) \<in> set (outstanding
        (if ident a \<in> fst ` set (outstanding s) then s\<lparr>skips := skips s + 1\<rparr>
         else s\<lparr>outstanding := outstanding s @ [(ident a, clock s)]\<rparr>))"
      by (auto simp: image_iff)
    then obtain d where "(ident a, d) \<in> set (outstanding
        (if ident a \<in> fst ` set (outstanding s) then s\<lparr>skips := skips s + 1\<rparr>
         else s\<lparr>outstanding := outstanding s @ [(ident a, clock s)]\<rparr>))" by blast
    from dispatch_keeps [OF this, of ts]
    have "(ident a, d) \<in> set (outstanding (dispatch (a # ts) s))" by simp
    then have "fst (ident a, d) \<in> fst ` set (outstanding (dispatch (a # ts) s))"
      by (rule imageI)
    with ta show ?thesis by simp
  qed
qed

lemma dispatch_skips:
  "distinct (map ident ts) \<Longrightarrow>
     skips (dispatch ts s)
       = skips s + length (filter (\<lambda>t. ident t \<in> fst ` set (outstanding s)) ts)"
proof (induction ts arbitrary: s)
  case Nil
  then show ?case by simp
next
  case (Cons t ts)
  from Cons.prems have d: "distinct (map ident ts)" and n: "ident t \<notin> ident ` set ts" by simp_all
  show ?case
  proof (cases "ident t \<in> fst ` set (outstanding s)")
    case True
    then show ?thesis using Cons.IH [OF d, of "s\<lparr>skips := skips s + 1\<rparr>"] by simp
  next
    case False
    have "filter (\<lambda>u. ident u \<in> fst ` set (outstanding s @ [(ident t, clock s)])) ts
        = filter (\<lambda>u. ident u \<in> fst ` set (outstanding s)) ts"
    proof (intro filter_cong refl)
      fix u assume "u \<in> set ts"
      with n have "ident u \<noteq> ident t" by (metis imageI)
      then show "(ident u \<in> fst ` set (outstanding s @ [(ident t, clock s)]))
          = (ident u \<in> fst ` set (outstanding s))" by auto
    qed
    then show ?thesis
      using False Cons.IH [OF d, of "s\<lparr>outstanding := outstanding s @ [(ident t, clock s)]\<rparr>"]
      by simp
  qed
qed

subsection \<open>Every reachable state is consistent\<close>

lemma consistent_idle: "consistent idle"
  by (simp add: consistent_def idle_def results_of_def)

lemma consistent_later:
  assumes "consistent s"
  shows "consistent (s\<lparr>clock := clock s + delay\<rparr>)"
  using assms unfolding consistent_def results_of_def by fastforce

lemma dispatch_consistent:
  assumes c: "consistent s"
  shows "consistent (dispatch ts s)"
  unfolding consistent_def
proof (intro conjI ballI allI impI)
  show "distinct (map fst (outstanding (dispatch ts s)))"
    using c dispatch_distinct by (simp add: consistent_def)
next
  fix p assume p: "p \<in> set (outstanding (dispatch ts s))"
  from dispatch_outstanding [OF p] c
  show "snd p \<le> clock (dispatch ts s)"
    by (auto simp: consistent_def)
next
  fix p r
  assume p: "p \<in> set (outstanding (dispatch ts s))"
    and r: "r \<in> set (store (dispatch ts s))" and t: "target_id r = fst p"
  from dispatch_outstanding [OF p] show "checked_at r \<le> snd p"
  proof
    assume "p \<in> set (outstanding s)"
    with c r t show ?thesis by (auto simp: consistent_def)
  next
    assume "snd p = clock s \<and> fst p \<in> ident ` set ts \<and> fst p \<notin> fst ` set (outstanding s)"
    with c r show ?thesis by (simp add: consistent_def)
  qed
next
  fix r assume "r \<in> set (store (dispatch ts s))"
  with c show "checked_at r \<le> clock (dispatch ts s)" by (simp add: consistent_def)
next
  fix T
  show "sorted (map checked_at (results_of T (dispatch ts s)))"
    using c by (simp add: consistent_def results_of_def)
qed

lemma completion_consistent:
  assumes c: "consistent s"
    and m: "map_of (outstanding s) (target_id r) = Some d"
    and lo: "d \<le> checked_at r" and hi: "checked_at r \<le> clock s + delay"
  shows "consistent (s\<lparr>clock := clock s + delay,
                      outstanding := filter (\<lambda>p. fst p \<noteq> target_id r) (outstanding s),
                      store := (if persisted then store s @ [r] else store s),
                      published := published s @ [r]\<rparr>)"
    (is "consistent ?s'")
proof -
  from m have mem: "(target_id r, d) \<in> set (outstanding s)" by (rule map_of_SomeD)
  from c have dist: "distinct (map fst (outstanding s))"
    and out: "\<And>p. p \<in> set (outstanding s) \<Longrightarrow> snd p \<le> clock s"
    and before: "\<And>p r'. p \<in> set (outstanding s) \<Longrightarrow> r' \<in> set (store s)
        \<Longrightarrow> target_id r' = fst p \<Longrightarrow> checked_at r' \<le> snd p"
    and past: "\<And>r'. r' \<in> set (store s) \<Longrightarrow> checked_at r' \<le> clock s"
    and srt: "\<And>T. sorted (map checked_at (results_of T s))"
    by (auto simp: consistent_def)
  have older: "checked_at r' \<le> checked_at r"
    if "r' \<in> set (store s)" "target_id r' = target_id r" for r'
    using before [OF mem that(1)] that(2) lo by simp
  have 1: "distinct (map fst (outstanding ?s'))"
    using dist by (simp add: distinct_map_filter)
  have 2: "snd p \<le> clock ?s'" if "p \<in> set (outstanding ?s')" for p
    using that out [of p] by auto
  have 3: "checked_at r' \<le> snd p"
    if p: "p \<in> set (outstanding ?s')" and r': "r' \<in> set (store ?s')"
      and t: "target_id r' = fst p" for p r'
  proof -
    from p have p0: "p \<in> set (outstanding s)" and ne: "fst p \<noteq> target_id r" by simp_all
    from r' t ne have "r' \<in> set (store s)" by (auto split: if_splits)
    from before [OF p0 this t] show ?thesis .
  qed
  have 4: "checked_at r' \<le> clock ?s'" if "r' \<in> set (store ?s')" for r'
    using that past [of r'] hi by (auto split: if_splits)
  have 5: "sorted (map checked_at (results_of T ?s'))" for T
  proof (cases "persisted \<and> T = target_id r")
    case True
    then have "results_of T ?s' = results_of T s @ [r]"
      by (simp add: results_of_def)
    moreover have "\<forall>x \<in> set (map checked_at (results_of T s)). x \<le> checked_at r"
      using older True by (auto simp: results_of_def)
    ultimately show ?thesis using srt [of T] by (simp add: sorted_append)
  next
    case False
    then have "results_of T ?s' = results_of T s"
      by (auto simp: results_of_def)
    with srt [of T] show ?thesis by simp
  qed
  show ?thesis
    unfolding consistent_def using 1 2 3 4 5 by blast
qed

lemma step_consistent:
  assumes "consistent s" and "step s e = Some s'"
  shows "consistent s'"
proof (cases e)
  case (Pair delay ev)
  show ?thesis
  proof (cases ev)
    case (Tick fetched)
    show ?thesis
    proof (cases fetched)
      case None
      with assms Pair Tick show ?thesis using consistent_later by auto
    next
      case (Some targets)
      with assms Pair Tick show ?thesis
        using dispatch_consistent [OF consistent_later [OF assms(1)]] by auto
    qed
  next
    case (Completed r persisted)
    with assms(2) Pair obtain d where m: "map_of (outstanding s) (target_id r) = Some d"
      and lo: "d \<le> checked_at r" and hi: "checked_at r \<le> clock s + delay"
      and s': "s' = s\<lparr>clock := clock s + delay,
                      outstanding := filter (\<lambda>p. fst p \<noteq> target_id r) (outstanding s),
                      store := (if persisted then store s @ [r] else store s),
                      published := published s @ [r]\<rparr>"
      by (auto split: option.splits if_splits)
    show ?thesis unfolding s' by (rule completion_consistent [OF assms(1) m lo hi])
  qed
qed

lemma run_consistent:
  assumes "consistent s" and "run s evs = Some s'"
  shows "consistent s'"
  using assms
proof (induction evs arbitrary: s)
  case Nil
  then show ?case by simp
next
  case (Cons e evs)
  from Cons.prems(2) obtain s1 where s1: "step s e = Some s1" and r: "run s1 evs = Some s'"
    by (auto split: option.splits)
  from Cons.IH [OF step_consistent [OF Cons.prems(1) s1] r] show ?case .
qed

text \<open>
  Claim C6. In every state the scheduler reaches, no target has two outstanding probes.
  When a tick then fires and fetches the (pairwise different) enabled targets, no probe is
  started for a target whose probe is still outstanding, which keeps its one probe, the
  skip counter grows by exactly the number of such targets, and every other listed target
  gets its probe; after the tick there is still at most one outstanding probe per target.
\<close>

theorem no_overlapping_probes:
  assumes "run idle evs = Some s"
  shows "distinct (map fst (outstanding s))
    \<and> (\<forall>delay targets. distinct (map ident targets) \<longrightarrow>
         (\<exists>s'. step s (delay, Tick (Some targets)) = Some s'
            \<and> skips s' = skips s
                 + length (filter (\<lambda>t. ident t \<in> fst ` set (outstanding s)) targets)
            \<and> (\<forall>p \<in> set (outstanding s). p \<in> set (outstanding s'))
            \<and> (\<forall>t \<in> set targets. ident t \<in> fst ` set (outstanding s'))
            \<and> distinct (map fst (outstanding s'))))"
proof -
  have c: "consistent s" using run_consistent [OF consistent_idle assms] .
  then have d: "distinct (map fst (outstanding s))" by (simp add: consistent_def)
  have tick: "\<exists>s'. step s (delay, Tick (Some targets)) = Some s'
            \<and> skips s' = skips s
                 + length (filter (\<lambda>t. ident t \<in> fst ` set (outstanding s)) targets)
            \<and> (\<forall>p \<in> set (outstanding s). p \<in> set (outstanding s'))
            \<and> (\<forall>t \<in> set targets. ident t \<in> fst ` set (outstanding s'))
            \<and> distinct (map fst (outstanding s'))"
    if dt: "distinct (map ident targets)" for delay targets
  proof -
    let ?s1 = "s\<lparr>clock := clock s + delay\<rparr>"
    let ?s' = "dispatch targets ?s1"
    have "step s (delay, Tick (Some targets)) = Some ?s'" by simp
    moreover have "skips ?s' = skips s
        + length (filter (\<lambda>t. ident t \<in> fst ` set (outstanding s)) targets)"
      using dispatch_skips [OF dt, of ?s1] by simp
    moreover have "\<forall>p \<in> set (outstanding s). p \<in> set (outstanding ?s')"
      using dispatch_keeps [of _ ?s1 targets] by simp
    moreover have "\<forall>t \<in> set targets. ident t \<in> fst ` set (outstanding ?s')"
      using dispatch_starts [of _ targets ?s1] by blast
    moreover have "distinct (map fst (outstanding ?s'))"
      using dispatch_distinct [of ?s1 targets] d by simp
    ultimately show ?thesis by blast
  qed
  from d tick show ?thesis by blast
qed

theorem no_overlapping_probes_witness:
  "run idle
     [(60, Tick (Some [\<lparr>ident = 1, address = ''http://a.example'', check_interval = 60, enabled = True\<rparr>,
                       \<lparr>ident = 2, address = ''http://b.example'', check_interval = 60, enabled = True\<rparr>])),
      (2, Completed \<lparr>target_id = 1, checked_at = 61, status = Online, response_time = Some 120,
                     status_code = Some 200, error_message = None\<rparr> True)]
     = Some \<lparr>clock = 62, outstanding = [(2, 60)], skips = 0,
             store = [\<lparr>target_id = 1, checked_at = 61, status = Online, response_time = Some 120,
                      status_code = Some 200, error_message = None\<rparr>],
             published = [\<lparr>target_id = 1, checked_at = 61, status = Online, response_time = Some 120,
                      status_code = Some 200, error_message = None\<rparr>]\<rparr>
   \<and> distinct (map ident
        [\<lparr>ident = 1, address = ''http://a.example'', check_interval = 60, enabled = True\<rparr>,
         \<lparr>ident = 2, address = ''http://b.example'', check_interval = 60, enabled = True\<rparr>])
   \<and> (\<exists>s'. step \<lparr>clock = 62, outstanding = [(2, 60)], skips = 0,
             store = [\<lparr>target_id = 1, checked_at = 61, status = Online, response_time = Some 120,
                      status_code = Some 200, error_message = None\<rparr>],
             published = [\<lparr>target_id = 1, checked_at = 61, status = Online, response_time = Some 120,
                      status_code = Some 200, error_message = None\<rparr>]\<rparr>
          (58, Tick (Some [\<lparr>ident = 1, address = ''http://a.example'', check_interval = 60, enabled = True\<rparr>,
                       \<lparr>ident = 2, address = ''http://b.example'', check_interval = 60, enabled = True\<rparr>]))
          = Some s'
        \<and> skips s' = 1 \<and> (2, 60) \<in> set (outstanding s') \<and> distinct (map fst (outstanding s')))"
proof -
  let ?a = "\<lparr>ident = 1, address = ''http://a.example'', check_interval = 60, enabled = True\<rparr>"
  let ?b = "\<lparr>ident = 2, address = ''http://b.example'', check_interval = 60, enabled = True\<rparr>"
  let ?r = "\<lparr>target_id = 1, checked_at = 61, status = Online, response_time = Some 120,
                     status_code = Some 200, error_message = None\<rparr>"
  let ?s = "\<lparr>clock = 62, outstanding = [(2, 60)], skips = 0, store = [?r], published = [?r]\<rparr>"
  have r: "run idle [(60, Tick (Some [?a, ?b])), (2, Completed ?r True)] = Some ?s"
    by (simp add: idle_def)
  have d: "distinct (map ident [?a, ?b])" by simp
  from no_overlapping_probes [OF r] d
  obtain s' where "step ?s (58, Tick (Some [?a, ?b])) = Some s'"
    "skips s' = skips ?s + length (filter (\<lambda>t. ident t \<in> fst ` set (outstanding ?s)) [?a, ?b])"
    "\<forall>p \<in> set (outstanding ?s). p \<in> set (outstanding s')"
    "distinct (map fst (outstanding s'))"
    by blast
  then have "step ?s (58, Tick (Some [?a, ?b])) = Some s' \<and> skips s' = 1
      \<and> (2, 60) \<in> set (outstanding s') \<and> distinct (map fst (outstanding s'))"
    by simp
  with r d show ?thesis by blast
qed

text \<open>
  Claim C7. In every state the scheduler reaches, that is, after every append it performs,
  the timestamps of the results stored for a target are non-decreasing in the order of
  their insertion.
\<close>

theorem timestamps_non_decreasing:
  assumes "run idle evs = Some s"
  shows "sorted (map checked_at (filter (\<lambda>r. target_id r = T) (store s)))"
proof -
  have "consistent s" using run_consistent [OF consistent_idle assms] .
  then have "sorted (map checked_at (results_of T s))" by (simp add: consistent_def)
  then show ?thesis by (simp add: results_of_def)
qed

theorem timestamps_non_decreasing_witness:
  "run idle
     [(60, Tick (Some [\<lparr>ident = 1, address = ''http://a.example'', check_interval = 60, enabled = True\<rparr>])),
      (2, Completed \<lparr>target_id = 1, checked_at = 61, status = Online, response_time = Some 120,
                     status_code = Some 200, error_message = None\<rparr> True),
      (58, Tick (Some [\<lparr>ident = 1, address = ''http://a.example'', check_interval = 60, enabled = True\<rparr>])),
      (10, Completed \<lparr>target_id = 1, checked_at = 130, status = Offline, response_time = None,
                     status_code = None, error_message = Some ''timeout''\<rparr> True)]
     = Some \<lparr>clock = 130, outstanding = [], skips = 0,
             store = [\<lparr>target_id = 1, checked_at = 61, status = Online, response_time = Some 120,
                        status_code = Some 200, error_message = None\<rparr>,
                      \<lparr>target_id = 1, checked_at = 130, status = Offline, response_time = None,
                        status_code = None, error_message = Some ''timeout''\<rparr>],
             published = [\<lparr>target_id = 1, checked_at = 61, status = Online, response_time = Some 120,
                        status_code = Some 200, error_message = None\<rparr>,
                      \<lparr>target_id = 1, checked_at = 130, status = Offline, response_time = None,
                        status_code = None, error_message = Some ''timeout''\<rparr>]\<rparr>
   \<and> sorted (map checked_at (filter (\<lambda>r. target_id r = 1)
        [\<lparr>target_id = 1, checked_at = 61, status = Online, response_time = Some 120,
                        status_code = Some 200, error_message = None\<rparr>,
         \<lparr>target_id = 1, checked_at = 130, status = Offline, response_time = None,
                        status_code = None, error_message = Some ''timeout''\<rparr>]))"
proof -
  let ?a = "\<lparr>ident = 1, address = ''http://a.example'', check_interval = 60, enabled = True\<rparr>"
  let ?r1 = "\<lparr>target_id = 1, checked_at = 61, status = Online, response_time = Some 120,
                     status_code = Some 200, error_message = None\<rparr>"
  let ?r2 = "\<lparr>target_id = 1, checked_at = 130, status = Offline, response_time = None,
                     status_code = None, error_message = Some ''timeout''\<rparr>"
  let ?s = "\<lparr>clock = 130, outstanding = [], skips = 0, store = [?r1, ?r2], published = [?r1, ?r2]\<rparr>"
  have r: "run idle [(60, Tick (Some [?a])), (2, Completed ?r1 True), (58, Tick (Some [?a])),
                     (10, Completed ?r2 True)] = Some ?s"
    by (simp add: idle_def)
  from timestamps_non_decreasing [OF r, of 1]
  have "sorted (map checked_at (filter (\<lambda>r. target_id r = 1) [?r1, ?r2]))"
    by (simp del: sorted_wrt.simps sorted_map)
  with r show ?thesis by blast
qed

section \<open>Uptime in the health timeline\<close>

lemma HealthTimeline_loaded:
  assumes "\<not> loading" and "0 < length history"
  shows "HealthTimeline percent loading history =
           Timeline
             (map (\<lambda>check. (field check ''status'', field check ''checked_at''))
                (rev (take 10 history)))
             (percent (length (filter (\<lambda>h. strict_eq (field h ''status'') (JStr ''online'')) history))
                (length history))
             (length (filter (\<lambda>h. strict_eq (field h ''status'') (JStr ''online'')) history))
             (length history)"
  using assms by (simp add: HealthTimeline_def Let_def)

text \<open>
  Claim C3. While the history is loading the component shows no figure. Once it is loaded:
  with no result in the window it shows ``No data''; with at least one it shows the count
  of online results over the count of all results of the window (and the percentage
  computed from that quotient), where the divisor is positive and the online count is at
  most the total. What is shown never depends on the value of a division by zero.
\<close>

theorem uptime_ratio_or_no_data:
  "(loading \<longrightarrow> HealthTimeline percent loading history = Loading)
   \<and> (\<not> loading \<and> length history = 0 \<longrightarrow> HealthTimeline percent loading history = NoData)
   \<and> (\<not> loading \<and> 0 < length history \<longrightarrow>
        (\<exists>dots onlineCount totalCount.
            HealthTimeline percent loading history
              = Timeline dots (percent onlineCount totalCount) onlineCount totalCount
          \<and> onlineCount
              = length (filter (\<lambda>h. strict_eq (field h ''status'') (JStr ''online'')) history)
          \<and> totalCount = length history \<and> 0 < totalCount \<and> onlineCount \<le> totalCount))
   \<and> ((\<forall>n d. 0 < d \<longrightarrow> percent' n d = percent n d) \<longrightarrow>
        HealthTimeline percent' loading history = HealthTimeline percent loading history)"
proof (intro conjI impI)
  assume loading
  then show "HealthTimeline percent loading history = Loading"
    by (simp add: HealthTimeline_def)
next
  assume "\<not> loading \<and> length history = 0"
  then show "HealthTimeline percent loading history = NoData"
    by (simp add: HealthTimeline_def)
next
  assume a: "\<not> loading \<and> 0 < length history"
  then have "HealthTimeline percent loading history =
           Timeline
             (map (\<lambda>check. (field check ''status'', field check ''checked_at''))
                (rev (take 10 history)))
             (percent (length (filter (\<lambda>h. strict_eq (field h ''status'') (JStr ''online'')) history))
                (length history))
             (length (filter (\<lambda>h. strict_eq (field h ''status'') (JStr ''online'')) history))
             (length history)"
    using HealthTimeline_loaded by blast
  moreover have "length (filter (\<lambda>h. strict_eq (field h ''status'') (JStr ''online'')) history)
      \<le> length history"
    by (rule length_filter_le)
  ultimately show "\<exists>dots onlineCount totalCount.
            HealthTimeline percent loading history
              = Timeline dots (percent onlineCount totalCount) onlineCount totalCount
          \<and> onlineCount
              = length (filter (\<lambda>h. strict_eq (field h ''status'') (JStr ''online'')) history)
          \<and> totalCount = length history \<and> 0 < totalCount \<and> onlineCount \<le> totalCount"
    using a by blast
next
  assume same: "\<forall>n d. 0 < d \<longrightarrow> percent' n d = percent n d"
  show "HealthTimeline percent' loading history = HealthTimeline percent loading history"
  proof (cases "\<not> loading \<and> 0 < length history")
    case True
    then have "percent'
        (length (filter (\<lambda>h. strict_eq (field h ''status'') (JStr ''online'')) history))
        (length history)
      = percent
        (length (filter (\<lambda>h. strict_eq (field h ''status'') (JStr ''online'')) history))
        (length history)"
      using same by blast
    with True show ?thesis
      using HealthTimeline_loaded [of loading history percent]
        HealthTimeline_loaded [of loading history percent'] by simp
  next
    case False
    then show ?thesis by (auto simp: HealthTimeline_def)
  qed
qed

theorem uptime_ratio_or_no_data_witness:
  "HealthTimeline (\<lambda>n d. (200 * int n + int d) div (2 * int d)) True [] = Loading
   \<and> HealthTimeline (\<lambda>n d. (200 * int n + int d) div (2 * int d)) False [] = NoData
   \<and> HealthTimeline (\<lambda>n d. (200 * int n + int d) div (2 * int d)) False
        [[(''status'', JStr ''online''), (''checked_at'', JStr ''10:03'')],
         [(''status'', JStr ''offline''), (''checked_at'', JStr ''10:02'')],
         [(''status'', JStr ''online''), (''checked_at'', JStr ''10:01'')]]
       = Timeline [(JStr ''online'', JStr ''10:01''), (JStr ''offline'', JStr ''10:02''),
                   (JStr ''online'', JStr ''10:03'')] 67 2 3
   \<and> HealthTimeline (\<lambda>n d. if d = 0 then 100 else (200 * int n + int d) div (2 * int d)) False
        [[(''status'', JStr ''online''), (''checked_at'', JStr ''10:03'')]]
       = HealthTimeline (\<lambda>n d. (200 * int n + int d) div (2 * int d)) False
        [[(''status'', JStr ''online''), (''checked_at'', JStr ''10:03'')]]"
proof -
  let ?p = "\<lambda>n d. (200 * int n + int d) div (2 * int d)"
  let ?p' = "\<lambda>n d. if d = 0 then 100 else (200 * int n + int d) div (2 * int d)"
  let ?h = "[[(''status'', JStr ''online''), (''checked_at'', JStr ''10:03'')],
         [(''status'', JStr ''offline''), (''checked_at'', JStr ''10:02'')],
         [(''status'', JStr ''online''), (''checked_at'', JStr ''10:01'')]]"
  have a: "HealthTimeline ?p True [] = Loading"
    using uptime_ratio_or_no_data [of True ?p "[]"] by simp
  have b: "HealthTimeline ?p False [] = NoData"
    using uptime_ratio_or_no_data [of False ?p "[]"] by simp
  have c: "HealthTimeline ?p False ?h
       = Timeline [(JStr ''online'', JStr ''10:01''), (JStr ''offline'', JStr ''10:02''),
                   (JStr ''online'', JStr ''10:03'')] 67 2 3"
    by (simp add: HealthTimeline_def field_def Let_def)
  have "\<forall>n d. 0 < d \<longrightarrow> ?p' n d = ?p n d" by simp
  with uptime_ratio_or_no_data
    [of False ?p "[[(''status'', JStr ''online''), (''checked_at'', JStr ''10:03'')]]" ?p']
  have d: "HealthTimeline ?p' False [[(''status'', JStr ''online''), (''checked_at'', JStr ''10:03'')]]
      = HealthTimeline ?p False [[(''status'', JStr ''online''), (''checked_at'', JStr ''10:03'')]]"
    by blast
  from a b c d show ?thesis by blast
qed

section \<open>Toggling a health check\<close>

lemma optimistic_other: "k \<noteq> urlId \<Longrightarrow> optimistic urlId currentStatus prev k = prev k"
  by (simp add: optimistic_def)

lemma revert_other: "k \<noteq> urlId \<Longrightarrow> revert urlId currentStatus prev k = prev k"
  by (simp add: revert_def)

lemma toggle_request_toggles:
  "toggleStates (state_of (toggle_request patch onRefresh urlId currentStatus s)) = toggleStates s"
  by (simp add: toggle_request_def Let_def split: option.splits)

lemma toggle_failed_toggles:
  "toggle_failed urlId currentStatus error s = Returned s' \<Longrightarrow>
     toggleStates s' = revert urlId currentStatus (toggleStates s)"
  by (auto simp: toggle_failed_def setToggleStates_def Let_def)

lemma toggle_failed_returns:
  "\<exists>s'. toggle_failed urlId currentStatus error s = Returned s'"
  by (simp add: toggle_failed_def Let_def)

lemma handleToggleHealthCheck_returns:
  "\<exists>s'. handleToggleHealthCheck patch onRefresh urlId currentStatus s = Returned s'
     \<and> (toggleStates s' = optimistic urlId currentStatus (toggleStates s)
         \<or> toggleStates s' = revert urlId currentStatus (optimistic urlId currentStatus (toggleStates s)))"
proof -
  let ?s1 = "setToggleStates (optimistic urlId currentStatus) s"
  have t1: "toggleStates ?s1 = optimistic urlId currentStatus (toggleStates s)"
    by (simp add: setToggleStates_def)
  show ?thesis
  proof (cases "toggle_request patch onRefresh urlId currentStatus ?s1")
    case (Returned s2)
    then have "toggleStates s2 = toggleStates ?s1"
      using toggle_request_toggles [of patch onRefresh urlId currentStatus ?s1] by simp
    with Returned t1 show ?thesis
      by (simp add: handleToggleHealthCheck_def try_catch_def)
  next
    case (Threw e s2)
    then have s2: "toggleStates s2 = toggleStates ?s1"
      using toggle_request_toggles [of patch onRefresh urlId currentStatus ?s1] by simp
    obtain s3 where s3: "toggle_failed urlId currentStatus e s2 = Returned s3"
      using toggle_failed_returns [of urlId currentStatus e s2] by blast
    from toggle_failed_toggles [OF s3] s2 t1
    have "toggleStates s3 = revert urlId currentStatus (optimistic urlId currentStatus (toggleStates s))"
      by simp
    with Threw s3 show ?thesis
      by (simp add: handleToggleHealthCheck_def try_catch_def)
  qed
qed

lemma handleToggleHealthCheck_rejected:
  assumes "patch urlId (if \<not> truthy currentStatus then ''YES'' else ''NO'') = Some error"
  shows "\<exists>s'. handleToggleHealthCheck patch onRefresh urlId currentStatus s = Returned s'
     \<and> toggleStates s' = revert urlId currentStatus (optimistic urlId currentStatus (toggleStates s))
     \<and> alerts s' = alerts s @ [''Failed to toggle health check'']"
  using assms
  by (simp add: handleToggleHealthCheck_def try_catch_def toggle_request_def toggle_failed_def
      setToggleStates_def Let_def)

lemma handleToggleHealthCheck_resolved:
  assumes "patch urlId (if \<not> truthy currentStatus then ''YES'' else ''NO'') = None"
    and "onRefresh = None \<or> onRefresh = Some None"
  shows "\<exists>s'. handleToggleHealthCheck patch onRefresh urlId currentStatus s = Returned s'
     \<and> toggleStates s' = optimistic urlId currentStatus (toggleStates s)
     \<and> alerts s' = alerts s"
  using assms
  by (auto simp: handleToggleHealthCheck_def try_catch_def toggle_request_def
      setToggleStates_def Let_def)

lemma toggle_of_revert:
  "toggle_of (revert urlId (toggle_of ts urlId) (optimistic urlId c ts)) k = toggle_of ts k"
  by (simp add: toggle_of_def revert_def optimistic_def)

text \<open>
  Claim C9. A toggle is atomic for the toggle state that is shown. The handler first sets
  the URL's toggle to the negation of the status it was given; the call always returns.
  When the PATCH request is rejected, the call ends with every toggle reading as it did
  before the checkbox was clicked (and an alert shown); when it is accepted and the refresh
  does not fail, the URL's toggle stays flipped. Whatever the outcome and whatever status
  was passed, the toggles of all other URLs are what they were, and each of the two state
  updates leaves the other URLs' toggles of any state it is applied to untouched.
\<close>

theorem toggle_reverts_on_failure:
  "(patch urlId (if \<not> truthy (toggle_of (toggleStates s) urlId) then ''YES'' else ''NO'')
      = Some error
    \<longrightarrow> (\<exists>s'. onChange patch onRefresh urlId s = Returned s'
          \<and> (\<forall>k. toggle_of (toggleStates s') k = toggle_of (toggleStates s) k)
          \<and> alerts s' = alerts s @ [''Failed to toggle health check'']))
   \<and> (patch urlId (if \<not> truthy (toggle_of (toggleStates s) urlId) then ''YES'' else ''NO'')
        = None \<and> (onRefresh = None \<or> onRefresh = Some None)
    \<longrightarrow> (\<exists>s'. onChange patch onRefresh urlId s = Returned s'
          \<and> toggle_of (toggleStates s') urlId
              = JBool (\<not> truthy (toggle_of (toggleStates s) urlId))))
   \<and> toggle_of (toggleStates (setToggleStates (optimistic urlId currentStatus) s)) urlId
        = JBool (\<not> truthy currentStatus)
   \<and> (\<exists>s'. handleToggleHealthCheck patch onRefresh urlId currentStatus s = Returned s'
          \<and> (\<forall>k. k \<noteq> urlId \<longrightarrow> toggleStates s' k = toggleStates s k))
   \<and> (\<forall>prev k. k \<noteq> urlId \<longrightarrow>
          optimistic urlId currentStatus prev k = prev k
          \<and> revert urlId currentStatus prev k = prev k)"
proof (intro conjI impI)
  let ?c = "toggle_of (toggleStates s) urlId"
  assume "patch urlId (if \<not> truthy ?c then ''YES'' else ''NO'') = Some error"
  with handleToggleHealthCheck_rejected [of patch urlId ?c error onRefresh s]
  obtain s' where r: "handleToggleHealthCheck patch onRefresh urlId ?c s = Returned s'"
    and t: "toggleStates s' = revert urlId ?c (optimistic urlId ?c (toggleStates s))"
    and a: "alerts s' = alerts s @ [''Failed to toggle health check'']"
    by blast
  have "\<forall>k. toggle_of (toggleStates s') k = toggle_of (toggleStates s) k"
    unfolding t by (simp add: toggle_of_revert)
  with r a show "\<exists>s'. onChange patch onRefresh urlId s = Returned s'
          \<and> (\<forall>k. toggle_of (toggleStates s') k = toggle_of (toggleStates s) k)
          \<and> alerts s' = alerts s @ [''Failed to toggle health check'']"
    by (simp add: onChange_def)
next
  let ?c = "toggle_of (toggleStates s) urlId"
  assume "patch urlId (if \<not> truthy ?c then ''YES'' else ''NO'') = None
      \<and> (onRefresh = None \<or> onRefresh = Some None)"
  then have p: "patch urlId (if \<not> truthy ?c then ''YES'' else ''NO'') = None"
    and o: "onRefresh = None \<or> onRefresh = Some None" by simp_all
  from handleToggleHealthCheck_resolved [of patch urlId ?c onRefresh s] p o
  obtain s' where r: "handleToggleHealthCheck patch onRefresh urlId ?c s = Returned s'"
    and t: "toggleStates s' = optimistic urlId ?c (toggleStates s)"
    by blast
  have "toggle_of (toggleStates s') urlId = JBool (\<not> truthy ?c)"
    unfolding t by (simp add: toggle_of_def optimistic_def)
  with r show "\<exists>s'. onChange patch onRefresh urlId s = Returned s'
          \<and> toggle_of (toggleStates s') urlId = JBool (\<not> truthy ?c)"
    by (simp add: onChange_def)
next
  show "toggle_of (toggleStates (setToggleStates (optimistic urlId currentStatus) s)) urlId
        = JBool (\<not> truthy currentStatus)"
    by (simp add: setToggleStates_def optimistic_def toggle_of_def)
next
  from handleToggleHealthCheck_returns [of patch onRefresh urlId currentStatus s]
  obtain s' where r: "handleToggleHealthCheck patch onRefresh urlId currentStatus s = Returned s'"
    and t: "toggleStates s' = optimistic urlId currentStatus (toggleStates s)
         \<or> toggleStates s' = revert urlId currentStatus (optimistic urlId currentStatus (toggleStates s))"
    by blast
  from t have "\<forall>k. k \<noteq> urlId \<longrightarrow> toggleStates s' k = toggleStates s k"
    by (auto simp: optimistic_def revert_def)
  with r show "\<exists>s'. handleToggleHealthCheck patch onRefresh urlId currentStatus s = Returned s'
          \<and> (\<forall>k. k \<noteq> urlId \<longrightarrow> toggleStates s' k = toggleStates s k)"
    by blast
next
  show "\<forall>prev k. k \<noteq> urlId \<longrightarrow>
          optimistic urlId currentStatus prev k = prev k
          \<and> revert urlId currentStatus prev k = prev k"
    by (simp add: optimistic_other revert_other)
qed

theorem toggle_reverts_on_failure_witness:
  "(\<exists>s'. onChange (\<lambda>k status. Some (JStr ''Network Error'')) None (5::nat)
            \<lparr>toggleStates = [5 \<mapsto> JBool True, 6 \<mapsto> JBool False], patches = [],
             refreshes = 0, logs = [], alerts = []\<rparr>
          = Returned s'
        \<and> toggle_of (toggleStates s') 5 = JBool True
        \<and> toggle_of (toggleStates s') 6 = JBool False
        \<and> alerts s' = [''Failed to toggle health check''])
   \<and> (\<exists>s'. onChange (\<lambda>k status. None) (Some None) (5::nat)
            \<lparr>toggleStates = [5 \<mapsto> JBool True, 6 \<mapsto> JBool False], patches = [],
             refreshes = 0, logs = [], alerts = []\<rparr>
          = Returned s'
        \<and> toggle_of (toggleStates s') 5 = JBool False)"
proof -
  let ?s = "\<lparr>toggleStates = [5 \<mapsto> JBool True, (6::nat) \<mapsto> JBool False], patches = [],
             refreshes = 0, logs = [], alerts = []\<rparr>"
  let ?fail = "\<lambda>(k::nat) (status::string). Some (JStr ''Network Error'')"
  let ?ok = "\<lambda>(k::nat) (status::string). None :: jsval option"
  have f: "?fail 5 (if \<not> truthy (toggle_of (toggleStates ?s) 5) then ''YES'' else ''NO'')
      = Some (JStr ''Network Error'')" by simp
  from toggle_reverts_on_failure
     [where patch = ?fail and urlId = 5 and s = ?s and error = "JStr ''Network Error''"
        and onRefresh = None] f
  obtain s' where r: "onChange ?fail None 5 ?s = Returned s'"
    "\<forall>k. toggle_of (toggleStates s') k = toggle_of (toggleStates ?s) k"
    "alerts s' = alerts ?s @ [''Failed to toggle health check'']"
    by blast
  from r(2) have "toggle_of (toggleStates s') 5 = JBool True"
    "toggle_of (toggleStates s') 6 = JBool False"
    by (simp_all add: toggle_of_def)
  with r have a: "\<exists>s'. onChange ?fail None 5 ?s = Returned s'
        \<and> toggle_of (toggleStates s') 5 = JBool True
        \<and> toggle_of (toggleStates s') 6 = JBool False
        \<and> alerts s' = [''Failed to toggle health check'']"
    by simp
  have g: "?ok 5 (if \<not> truthy (toggle_of (toggleStates ?s) 5) then ''YES'' else ''NO'') = None
      \<and> (Some None = (None :: jsval option option) \<or> Some None = Some (None :: jsval option))"
    by simp
  from toggle_reverts_on_failure
     [where patch = ?ok and urlId = 5 and s = ?s and onRefresh = "Some None"] g
  obtain s'' where "onChange ?ok (Some None) 5 ?s = Returned s''"
    "toggle_of (toggleStates s'') 5 = JBool (\<not> truthy (toggle_of (toggleStates ?s) 5))"
    by blast
  then have b: "\<exists>s'. onChange ?ok (Some None) 5 ?s = Returned s'
      \<and> toggle_of (toggleStates s') 5 = JBool False"
    by (simp add: toggle_of_def)
  from a b show ?thesis by blast
qed

end
